theory Spec2Isabelle
  imports Main
begin

section \<open>JavaScript values and strings\<close>

text \<open>
  Strings are lists of code units (\<open>string\<close>), one character for each code unit below
  256; \<open>slice(0, n)\<close> is \<open>take n\<close>. The two characters above 255 that the source
  writes in its labels, the ellipsis and the dash, stand as their UTF-8 bytes. Numbers are
  the integral epoch values and lengths the chat view handles (\<open>int\<close>, \<open>nat\<close>). A value of TypeScript type \<open>unknown\<close> is a \<open>js_value\<close>: one of the two
  nullish values, a string, a boolean, a number, or an object, which is carried by the
  text that \<open>JSON.stringify(value, null, 2)\<close> gives for it.
\<close>

datatype js_value =
  JUndefined | JNull | JString string | JBool bool | JNumber int | JObject string

text \<open>The decimal text of a number in a template literal, for integral values.\<close>

fun digit_chars :: "nat \<Rightarrow> string" where
  "digit_chars n =
     (if n < 10 then [''0123456789'' ! n]
      else digit_chars (n div 10) @ [''0123456789'' ! (n mod 10)])"

declare digit_chars.simps [simp del]

definition number_to_string :: "int \<Rightarrow> string" where
  "number_to_string i =
     (if i < 0 then CHR ''-'' # digit_chars (nat (- i)) else digit_chars (nat i))"

text \<open>\<open>toText\<close> (chat.tsx).\<close>

fun toText :: "js_value \<Rightarrow> string" where
  "toText (JString s) = s"
| "toText JUndefined = []"
| "toText JNull = []"
| "toText (JObject t) = t"
| "toText (JBool b) = (if b then ''true'' else ''false'')"
| "toText (JNumber n) = number_to_string n"

text \<open>Truthiness, and \<open>a ?? b\<close> and \<open>a || b\<close> on values of unknown type.\<close>

fun js_truthy :: "js_value \<Rightarrow> bool" where
  "js_truthy JUndefined = False"
| "js_truthy JNull = False"
| "js_truthy (JString s) = (s \<noteq> [])"
| "js_truthy (JBool b) = b"
| "js_truthy (JNumber n) = (n \<noteq> 0)"
| "js_truthy (JObject t) = True"

fun js_nullish_or :: "js_value \<Rightarrow> js_value \<Rightarrow> js_value" where
  "js_nullish_or JUndefined y = y"
| "js_nullish_or JNull y = y"
| "js_nullish_or x y = x"

definition js_or :: "js_value \<Rightarrow> js_value \<Rightarrow> js_value" where
  "js_or x y = (if js_truthy x then x else y)"

text \<open>\<open>a ?? b\<close> on optional values.\<close>

fun nullish_or :: "'a option \<Rightarrow> 'a option \<Rightarrow> 'a option" where
  "nullish_or (Some x) _ = Some x"
| "nullish_or None y = y"

text \<open>\<open>String.prototype.trim\<close>: white space and line terminators among the code units
  below 256.\<close>

definition is_space :: "char \<Rightarrow> bool" where
  "is_space c \<longleftrightarrow> c \<in> {CHR 0x09, CHR 0x0A, CHR 0x0B, CHR 0x0C, CHR 0x0D, CHR '' '', CHR 0xA0}"

definition trim :: "string \<Rightarrow> string" where
  "trim s = rev (dropWhile is_space (rev (dropWhile is_space s)))"

section \<open>Messages and dedup keys (chat.tsx)\<close>

record LiveMessage =
  role :: string
  content :: string
  timestamp :: int

text \<open>A persisted message as the REST schema delivers it: every field optional.\<close>

record SessionMessage =
  sm_role :: "string option"
  sm_content :: js_value
  sm_timestamp :: "int option"

text \<open>\<open>normalizeMessage\<close>; \<open>now\<close> is the value of \<open>Date.now()\<close>.\<close>

definition normalizeMessage :: "int \<Rightarrow> SessionMessage \<Rightarrow> LiveMessage" where
  "normalizeMessage now message =
     \<lparr> role = (case sm_role message of Some r \<Rightarrow> r | None \<Rightarrow> ''assistant''),
       content = toText (sm_content message),
       timestamp = (case sm_timestamp message of Some t \<Rightarrow> t | None \<Rightarrow> now) \<rparr>"

definition messageBaseKey :: "string option \<Rightarrow> js_value \<Rightarrow> string" where
  "messageBaseKey r c =
     (case r of Some x \<Rightarrow> x | None \<Rightarrow> ''assistant'') @ ''|'' @ take 200 (toText c)"

text \<open>A timestamp is truthy when it is present and not zero.\<close>

definition messageKey :: "string option \<Rightarrow> js_value \<Rightarrow> int option \<Rightarrow> string" where
  "messageKey r c ts =
     (case ts of
        None \<Rightarrow> messageBaseKey r c
      | Some t \<Rightarrow>
          if t \<noteq> 0 then messageBaseKey r c @ ''|'' @ number_to_string t
          else messageBaseKey r c)"

text \<open>The two keys of a message held in the view.\<close>

definition liveKey :: "LiveMessage \<Rightarrow> string" where
  "liveKey m = messageKey (Some (role m)) (JString (content m)) (Some (timestamp m))"

definition liveBaseKey :: "LiveMessage \<Rightarrow> string" where
  "liveBaseKey m = messageBaseKey (Some (role m)) (JString (content m))"

text \<open>Two mappings of epoch values in the same view: the \<open>timestamp\<close> that the memo
  \<open>persistedReceipts\<close> (chat.tsx) gives a fetched receipt from its \<open>started_at\<close>, and the
  constant \<open>ms\<close> of \<open>formatRelativeTime\<close> (lib/utils.ts).\<close>

definition persistedReceiptTimestamp :: "int \<Rightarrow> int option \<Rightarrow> int" where
  "persistedReceiptTimestamp now started_at =
     (case started_at of
        Some t \<Rightarrow> if t > 10 ^ 12 then t else t * 1000
      | None \<Rightarrow> now)"

definition formatRelativeTimeMs :: "int \<Rightarrow> int" where
  "formatRelativeTimeMs ts = (if ts > 10 ^ 12 then ts else ts * 1000)"

section \<open>Transcript merger (chat.tsx, \<open>allMessages\<close>)\<close>

text \<open>The filter on the fetched messages: a truthy role, and a content that is neither
  undefined, null nor the empty string.\<close>

definition keepPersisted :: "SessionMessage \<Rightarrow> bool" where
  "keepPersisted m \<longleftrightarrow>
     (case sm_role m of Some r \<Rightarrow> r \<noteq> [] | None \<Rightarrow> False) \<and>
     sm_content m \<noteq> JUndefined \<and> sm_content m \<noteq> JNull \<and> sm_content m \<noteq> JString []"

definition persisted :: "int \<Rightarrow> SessionMessage list \<Rightarrow> LiveMessage list" where
  "persisted now messages = map (normalizeMessage now) (filter keepPersisted messages)"

text \<open>The body of the memo after \<open>persisted\<close> is computed: the two early returns, the
  two key sets, the filter over the live messages and the concatenation.\<close>

definition mergeMessages :: "LiveMessage list \<Rightarrow> LiveMessage list \<Rightarrow> LiveMessage list" where
  "mergeMessages p liveMessages =
     (if p = [] then liveMessages
      else if liveMessages = [] then p
      else
        let persistedKeys = set (map liveKey p);
            persistedBaseKeys = set (map liveBaseKey p);
            dedupedLive =
              filter (\<lambda>m. if liveKey m \<in> persistedKeys then False
                          else if liveBaseKey m \<in> persistedBaseKeys then False
                          else True) liveMessages
        in p @ dedupedLive)"

definition allMessages :: "int \<Rightarrow> SessionMessage list \<Rightarrow> LiveMessage list \<Rightarrow> LiveMessage list" where
  "allMessages now messages liveMessages = mergeMessages (persisted now messages) liveMessages"

section \<open>The chat view's state (chat.tsx, \<open>ChatRoute\<close>)\<close>

datatype ActivityKind = Tool | Receipt | Info | Error

record ActivityItem =
  act_text :: string
  act_timestamp :: int
  act_kind :: ActivityKind

record ToolCallEvent =
  tc_tool :: "string option"
  tc_success :: "bool option"
  tc_duration_ms :: "int option"
  tc_args_summary :: "string option"
  tc_error :: "string option"

record TokensEvent =
  prompt_tokens :: "int option"
  completion_tokens :: "int option"
  total_tokens :: "int option"

record ReceiptTool =
  rt_tool :: string
  rt_success :: bool
  rt_durationMs :: "int option"

record ReceiptToolCall =
  rc_name :: string
  rc_args :: string
  rc_success :: bool
  rc_duration :: int
  rc_error :: "string option"

record ReceiptItem =
  r_timestamp :: int
  r_prompt :: int
  r_completion :: int
  r_total :: int
  r_durationMs :: "int option"
  r_modelCalls :: "int option"
  r_tools :: "ReceiptTool list"
  r_toolCalls :: "ReceiptToolCall list"

text \<open>A parsed frame of the operator stream. An absent or null field is \<open>None\<close>
  (\<open>JUndefined\<close>, \<open>JNull\<close> for the fields of unknown type).\<close>

record GatewayEvent =
  ev_type :: "string option"
  ev_agents :: "string list option"
  ev_agent :: "string option"
  ev_agent_id :: "string option"
  ev_session :: "string option"
  ev_session_id :: "string option"
  ev_role :: "string option"
  ev_content :: js_value
  ev_message :: js_value
  ev_response :: js_value
  ev_error :: js_value
  ev_delta :: "string option"
  ev_done :: "bool option"
  ev_tool :: "string option"
  ev_timestamp :: "int option"
  ev_tokens :: "TokensEvent option"
  ev_duration_ms :: "int option"
  ev_model_calls :: "int option"
  ev_tool_calls :: "ToolCallEvent list option"

text \<open>A frame written to the socket: \<open>{type: "client_command", command, target_agent}\<close>.\<close>

record ClientCommand =
  command :: string
  target_agent :: string

text \<open>
  The component's state hooks and refs. \<open>streamBuffer\<close> is the state hook and
  \<open>streamBufferRef\<close> the ref of the same name; \<open>selectedAgent\<close> and \<open>selectedSession\<close>
  stand for the hooks and for the refs that mirror them. \<open>pendingFinalize\<close> holds the
  content the pending closure captured. \<open>revealRaf\<close> says that an animation frame is
  requested, \<open>otherSessionTimer\<close> holds the time at which the pending banner timeout
  fires, \<open>wsOpen\<close> says that \<open>wsRef.current\<close> is a socket in state OPEN, \<open>sent\<close> lists
  the frames written to the socket and \<open>invalidated\<close> the query keys invalidated.
\<close>

record ChatState =
  selectedAgent :: string
  selectedSession :: string
  draft :: string
  typing :: bool
  typingLabel :: string
  liveMessages :: "LiveMessage list"
  activityItems :: "ActivityItem list"
  receipts :: "ReceiptItem list"
  streamBuffer :: string
  otherSession :: "(string \<times> string) option"
  wsConnected :: bool
  wsReconnectAttempts :: nat
  seenKeys :: "string set"
  streamBufferRef :: string
  otherSessionTimer :: "int option"
  userPickedSession :: bool
  revealedLen :: nat
  displayedStream :: string
  revealRaf :: bool
  isStreaming :: bool
  pendingFinalize :: "string option"
  wsOpen :: bool
  sent :: "ClientCommand list"
  invalidated :: "string list"

text \<open>U+2026, the ellipsis of the labels, in UTF-8.\<close>

definition ellipsis :: string where
  "ellipsis = [CHR 0xE2, CHR 0x80, CHR 0xA6]"

definition thinkingLabel :: string where
  "thinkingLabel = ''Thinking'' @ ellipsis"

text \<open>The state of a freshly mounted view.\<close>

definition initialState :: ChatState where
  "initialState =
     \<lparr> selectedAgent = ''default'', selectedSession = [], draft = [], typing = False,
       typingLabel = thinkingLabel, liveMessages = [], activityItems = [], receipts = [],
       streamBuffer = [], otherSession = None, wsConnected = True, wsReconnectAttempts = 0,
       seenKeys = {}, streamBufferRef = [], otherSessionTimer = None,
       userPickedSession = False, revealedLen = 0, displayedStream = [], revealRaf = False,
       isStreaming = False, pendingFinalize = None, wsOpen = False, sent = [],
       invalidated = [] \<rparr>"

text \<open>\<open>xs.slice(-n)\<close>.\<close>

definition slice_last :: "nat \<Rightarrow> 'a list \<Rightarrow> 'a list" where
  "slice_last n xs = drop (length xs - n) xs"

definition appendActivity :: "int \<Rightarrow> string \<Rightarrow> ActivityKind \<Rightarrow> ChatState \<Rightarrow> ChatState" where
  "appendActivity now label kind s =
     s\<lparr>activityItems :=
         slice_last 199 (activityItems s) @
           [\<lparr>act_text = label, act_timestamp = now, act_kind = kind\<rparr>]\<rparr>"

subsection \<open>The reveal loop\<close>

definition CHARS_PER_FRAME :: nat where
  "CHARS_PER_FRAME = 3"

text \<open>The reveal effect, which React runs again when the \<open>streamBuffer\<close> hook has
  changed: the clean-up cancels the requested frame, the body requests one while the
  stream is running or text is left to reveal.\<close>

definition revealEffect :: "ChatState \<Rightarrow> ChatState" where
  "revealEffect s =
     (let s1 = s\<lparr>revealRaf := False\<rparr> in
      if isStreaming s1 \<or>
         (length (streamBufferRef s1) > 0 \<and> revealedLen s1 < length (streamBufferRef s1))
      then s1\<lparr>revealRaf := True\<rparr> else s1)"

definition commitStreamBuffer :: "string \<Rightarrow> ChatState \<Rightarrow> ChatState" where
  "commitStreamBuffer before s = (if streamBuffer s = before then s else revealEffect s)"

text \<open>The closure stored in \<open>pendingFinalizeRef\<close>, run at time \<open>now\<close> with the content
  it captured.\<close>

definition runFinalize :: "int \<Rightarrow> string \<Rightarrow> ChatState \<Rightarrow> ChatState" where
  "runFinalize now c s =
     (let s1 =
        (if c \<noteq> [] then
           s\<lparr>seenKeys :=
               insert (messageBaseKey (Some ''assistant'') (JString c))
                 (insert (messageKey (Some ''assistant'') (JString c) (Some now)) (seenKeys s)),
             liveMessages :=
               liveMessages s @ [\<lparr>role = ''assistant'', content = c, timestamp = now\<rparr>]\<rparr>
         else s)
      in s1\<lparr>streamBufferRef := [], revealedLen := 0, streamBuffer := [],
             displayedStream := [], typing := False\<rparr>)"

text \<open>One run of the frame callback \<open>tick\<close>.\<close>

definition tickBody :: "int \<Rightarrow> ChatState \<Rightarrow> ChatState" where
  "tickBody now s =
     (let full = streamBufferRef s in
      if revealedLen s < length full then
        (let r = min (revealedLen s + CHARS_PER_FRAME) (length full) in
         s\<lparr>revealedLen := r, displayedStream := take r full, revealRaf := True\<rparr>)
      else if \<not> isStreaming s \<and> length full > 0 then
        (case pendingFinalize s of
           Some c \<Rightarrow> (runFinalize now c (s\<lparr>revealRaf := False\<rparr>))\<lparr>pendingFinalize := None\<rparr>
         | None \<Rightarrow> s\<lparr>revealRaf := False\<rparr>)
      else if isStreaming s then s\<lparr>revealRaf := True\<rparr>
      else s\<lparr>revealRaf := False\<rparr>)"

text \<open>An animation frame: the callback runs when a frame is requested.\<close>

definition tick :: "int \<Rightarrow> ChatState \<Rightarrow> ChatState" where
  "tick now s = (if revealRaf s then commitStreamBuffer (streamBuffer s) (tickBody now s) else s)"

fun ticks :: "int list \<Rightarrow> ChatState \<Rightarrow> ChatState" where
  "ticks [] s = s"
| "ticks (t # ts) s = ticks ts (tick t s)"

subsection \<open>The socket's message handler\<close>

definition toolName :: "GatewayEvent \<Rightarrow> string" where
  "toolName payload = (case ev_tool payload of Some n \<Rightarrow> n | None \<Rightarrow> ''tool'')"

text \<open>The banner's detail for an event of another session.\<close>

definition otherSessionDetail :: "string \<Rightarrow> GatewayEvent \<Rightarrow> string" where
  "otherSessionDetail ty payload =
     (if ty = ''tool_start'' then ''running '' @ toolName payload
      else if ty = ''stream_delta'' then ''responding...''
      else if ty = ''typing_start'' then ''thinking...''
      else if ty = ''turn_receipt'' then ''completed turn''
      else ''working...'')"

text \<open>The events after which the banner's timeout is set.\<close>

definition terminalEvent :: "string \<Rightarrow> GatewayEvent \<Rightarrow> bool" where
  "terminalEvent ty payload \<longleftrightarrow>
     ty = ''turn_receipt'' \<or> ty = ''typing_stop'' \<or>
     (ty = ''stream_delta'' \<and> ev_done payload = Some True)"

definition otherSessionBranch :: "int \<Rightarrow> string \<Rightarrow> string \<Rightarrow> GatewayEvent \<Rightarrow> ChatState \<Rightarrow> ChatState" where
  "otherSessionBranch now ty eventSession payload s =
     s\<lparr>otherSession := Some (eventSession, otherSessionDetail ty payload),
       otherSessionTimer := (if terminalEvent ty payload then Some (now + 6000) else None)\<rparr>"

text \<open>The \<open>stream_delta\<close> branch.\<close>

definition streamDelta :: "int \<Rightarrow> GatewayEvent \<Rightarrow> ChatState \<Rightarrow> ChatState" where
  "streamDelta now payload s =
     (let s1 =
        (case ev_delta payload of
           None \<Rightarrow> s
         | Some d \<Rightarrow>
             if d = [] then s
             else s\<lparr>streamBufferRef := streamBufferRef s @ d, isStreaming := True,
                    streamBuffer := streamBufferRef s @ d\<rparr>)
      in
      if ev_done payload = Some True then
        (let c = trim (streamBufferRef s1);
             s2 = s1\<lparr>isStreaming := False, pendingFinalize := Some c\<rparr>
         in if streamBufferRef s2 = [] then (runFinalize now c s2)\<lparr>pendingFinalize := None\<rparr>
            else s2\<lparr>streamBuffer := streamBufferRef s2\<rparr>)
      else s1)"

text \<open>The \<open>session_message\<close> branch.\<close>

definition sessionMessage :: "int \<Rightarrow> GatewayEvent \<Rightarrow> ChatState \<Rightarrow> ChatState" where
  "sessionMessage now payload s =
     (let r = (case ev_role payload of Some x \<Rightarrow> x | None \<Rightarrow> ''assistant'');
          c = toText (js_nullish_or (ev_content payload)
                        (js_nullish_or (ev_message payload) (ev_response payload)));
          key = messageKey (Some r) (JString c) (ev_timestamp payload);
          baseKey = messageBaseKey (Some r) (JString c)
      in
      if key \<in> seenKeys s \<or> baseKey \<in> seenKeys s then s
      else
        s\<lparr>seenKeys := insert baseKey (insert key (seenKeys s)),
          liveMessages :=
            liveMessages s @
              [\<lparr>role = r, content = c,
                timestamp = (case ev_timestamp payload of Some t \<Rightarrow> t | None \<Rightarrow> now)\<rparr>]\<rparr>)"

text \<open>The \<open>turn_receipt\<close> branch.\<close>

definition receiptOfEvent :: "int \<Rightarrow> GatewayEvent \<Rightarrow> ReceiptItem" where
  "receiptOfEvent now payload =
     (let calls = (case ev_tool_calls payload of Some cs \<Rightarrow> cs | None \<Rightarrow> []);
          tok = (\<lambda>f. case ev_tokens payload of
                   None \<Rightarrow> 0
                 | Some t \<Rightarrow> (case f t of Some n \<Rightarrow> n | None \<Rightarrow> 0))
      in
      \<lparr> r_timestamp = now,
        r_prompt = tok prompt_tokens, r_completion = tok completion_tokens,
        r_total = tok total_tokens,
        r_durationMs = ev_duration_ms payload,
        r_modelCalls = ev_model_calls payload,
        r_tools =
          map (\<lambda>c. \<lparr> rt_tool = (case tc_tool c of Some n \<Rightarrow> n | None \<Rightarrow> ''tool''),
                     rt_success = (case tc_success c of Some b \<Rightarrow> b | None \<Rightarrow> True),
                     rt_durationMs = tc_duration_ms c \<rparr>) calls,
        r_toolCalls =
          map (\<lambda>c. \<lparr> rc_name = (case tc_tool c of Some n \<Rightarrow> n | None \<Rightarrow> ''unknown''),
                     rc_args = (case tc_args_summary c of Some a \<Rightarrow> a | None \<Rightarrow> []),
                     rc_success = (case tc_success c of Some b \<Rightarrow> b | None \<Rightarrow> True),
                     rc_duration = (case tc_duration_ms c of Some d \<Rightarrow> d | None \<Rightarrow> 0),
                     rc_error = tc_error c \<rparr>) calls \<rparr>)"

text \<open>The handling of an event of the viewed session, or of one without a session tag:
  the chain of branches on the event's type.\<close>

definition handleViewed :: "int \<Rightarrow> string \<Rightarrow> GatewayEvent \<Rightarrow> ChatState \<Rightarrow> ChatState" where
  "handleViewed now ty payload s =
     (if ty = ''session_created'' then
        appendActivity now ''Session rotated'' Info
          (s\<lparr>invalidated := invalidated s @ [''sessions'', ''currentSession'']\<rparr>)
      else if ty = ''typing_start'' then s\<lparr>typing := True, typingLabel := thinkingLabel\<rparr>
      else if ty = ''typing_stop'' then s\<lparr>typing := False, typingLabel := thinkingLabel\<rparr>
      else if ty = ''tool_start'' then
        appendActivity now (''Tool start: '' @ toolName payload) Tool
          (s\<lparr>typing := True, typingLabel := ''Running '' @ toolName payload @ ellipsis\<rparr>)
      else if ty = ''tool_end'' then
        appendActivity now (''Tool done: '' @ toolName payload) Tool
          (s\<lparr>typing := True, typingLabel := thinkingLabel\<rparr>)
      else if ty = ''tool_error'' then
        appendActivity now
          (''Tool error: '' @ toolName payload @ '' ('' @
             toText (js_or (ev_error payload) (ev_message payload)) @ '')'') Error
          (s\<lparr>typing := True, typingLabel := ''Tool error'' @ ellipsis\<rparr>)
      else if ty = ''stream_delta'' then streamDelta now payload s
      else if ty = ''session_message'' then sessionMessage now payload s
      else if ty = ''slash_response'' then
        appendActivity now ''Slash command completed'' Info
          (s\<lparr>typing := False,
             liveMessages :=
               liveMessages s @
                 [\<lparr>role = ''system'',
                   content = toText (js_nullish_or (ev_response payload) (ev_content payload)),
                   timestamp = now\<rparr>]\<rparr>)
      else if ty = ''slash_error'' then
        appendActivity now ''Slash command failed'' Error
          (s\<lparr>typing := False,
             liveMessages :=
               liveMessages s @
                 [\<lparr>role = ''system'',
                   content = ''Error: '' @
                     toText (js_nullish_or (ev_error payload) (ev_content payload)),
                   timestamp = now\<rparr>]\<rparr>)
      else if ty = ''turn_receipt'' then
        s\<lparr>receipts := slice_last 39 (receipts s) @ [receiptOfEvent now payload]\<rparr>
      else s)"

text \<open>\<open>ws.onmessage\<close> on a frame; \<open>None\<close> is a frame that \<open>JSON.parse\<close> rejects. The
  hooks set by the handler are committed when it returns.\<close>

definition onmessageBody :: "int \<Rightarrow> GatewayEvent \<Rightarrow> ChatState \<Rightarrow> ChatState" where
  "onmessageBody now payload s =
     (case ev_type payload of
        None \<Rightarrow> s
      | Some ty \<Rightarrow>
          if ty = [] then s
          else if ty = ''agent_list'' \<and> ev_agents payload \<noteq> None then
            s\<lparr>invalidated := invalidated s @ [''agents'']\<rparr>
          else
            (let agent =
               (case nullish_or (ev_agent payload) (ev_agent_id payload) of
                  Some a \<Rightarrow> a | None \<Rightarrow> [])
             in
             if agent \<noteq> selectedAgent s then s
             else
               (case nullish_or (ev_session payload) (ev_session_id payload) of
                  None \<Rightarrow> handleViewed now ty payload s
                | Some eventSession \<Rightarrow>
                    if eventSession \<noteq> [] \<and> selectedSession s \<noteq> [] \<and>
                       eventSession \<noteq> selectedSession s
                    then otherSessionBranch now ty eventSession payload s
                    else handleViewed now ty payload s)))"

definition onmessage :: "int \<Rightarrow> GatewayEvent option \<Rightarrow> ChatState \<Rightarrow> ChatState" where
  "onmessage now frame s =
     (case frame of
        None \<Rightarrow> s
      | Some payload \<Rightarrow> commitStreamBuffer (streamBuffer s) (onmessageBody now payload s))"

subsection \<open>Sending, the session reset and the socket's life cycle\<close>

text \<open>\<open>sendMessage\<close>.\<close>

definition sendMessage :: "int \<Rightarrow> ChatState \<Rightarrow> ChatState" where
  "sendMessage now s =
     (let c = trim (draft s) in
      if c = [] \<or> \<not> wsOpen s then s
      else
        s\<lparr>sent := sent s @ [\<lparr>command = c, target_agent = selectedAgent s\<rparr>],
          seenKeys :=
            insert (messageBaseKey (Some ''user'') (JString c))
              (insert (messageKey (Some ''user'') (JString c) None) (seenKeys s)),
          liveMessages := liveMessages s @ [\<lparr>role = ''user'', content = c, timestamp = now\<rparr>],
          typing := True, typingLabel := thinkingLabel, draft := []\<rparr>)"

text \<open>The effect on \<open>[selectedAgent, selectedSession]\<close>.\<close>

definition sessionResetBody :: "ChatState \<Rightarrow> ChatState" where
  "sessionResetBody s =
     s\<lparr>liveMessages := [], activityItems := [], receipts := [], seenKeys := {},
       streamBufferRef := [], revealedLen := 0, isStreaming := False,
       pendingFinalize := None, streamBuffer := [], displayedStream := [],
       typing := False, typingLabel := thinkingLabel, otherSession := None\<rparr>"

definition sessionReset :: "ChatState \<Rightarrow> ChatState" where
  "sessionReset s = commitStreamBuffer (streamBuffer s) (sessionResetBody s)"

text \<open>A change of the selected agent or of the viewed session: the hook is set, and the
  effect runs when the value has changed.\<close>

definition setSelectedAgent :: "string \<Rightarrow> ChatState \<Rightarrow> ChatState" where
  "setSelectedAgent a s =
     (if a = selectedAgent s then s else sessionReset (s\<lparr>selectedAgent := a\<rparr>))"

definition setSelectedSession :: "string \<Rightarrow> ChatState \<Rightarrow> ChatState" where
  "setSelectedSession sid s =
     (if sid = selectedSession s then s else sessionReset (s\<lparr>selectedSession := sid\<rparr>))"

text \<open>\<open>ws.onopen\<close> and \<open>ws.onclose\<close> of a mounted view.\<close>

definition onopen :: "ChatState \<Rightarrow> ChatState" where
  "onopen s = s\<lparr>wsConnected := True, wsReconnectAttempts := 0, wsOpen := True\<rparr>"

definition reconnectDelay :: "nat \<Rightarrow> nat" where
  "reconnectDelay attempts = min (1000 * 2 ^ attempts) 15000"

definition onclose :: "ChatState \<Rightarrow> ChatState" where
  "onclose s =
     s\<lparr>wsConnected := False, wsOpen := False, typing := False,
       wsReconnectAttempts := wsReconnectAttempts s + 1\<rparr>"

text \<open>The banner's timeout, when it fires: \<open>setOtherSession(null)\<close>.\<close>

definition bannerTimeout :: "int \<Rightarrow> ChatState \<Rightarrow> ChatState" where
  "bannerTimeout now s =
     (case otherSessionTimer s of
        None \<Rightarrow> s
      | Some t \<Rightarrow> if t \<le> now then s\<lparr>otherSession := None, otherSessionTimer := None\<rparr> else s)"

text \<open>\<open>startNewSession\<close>, and \<open>jumpToOtherSession\<close> once the refetch has resolved.\<close>

definition startNewSession :: "int \<Rightarrow> ChatState \<Rightarrow> ChatState" where
  "startNewSession now s =
     (if wsOpen s then
        s\<lparr>sent := sent s @ [\<lparr>command = ''/new'', target_agent = selectedAgent s\<rparr>],
          liveMessages :=
            liveMessages s @
              [\<lparr>role = ''system'', content = ''New session started'', timestamp = now\<rparr>],
          userPickedSession := False\<rparr>
      else s)"

definition jumpToOtherSession :: "ChatState \<Rightarrow> ChatState" where
  "jumpToOtherSession s =
     (case otherSession s of
        None \<Rightarrow> s
      | Some (sid, detail) \<Rightarrow>
          (if sid = selectedSession s then s\<lparr>userPickedSession := True\<rparr>
           else sessionReset (s\<lparr>userPickedSession := True, selectedSession := sid\<rparr>))
            \<lparr>otherSession := None\<rparr>)"

text \<open>What can happen to a mounted view, and a run of such actions. The two pickers
  record whether the user chose the session; \<open>AutoSelectSession\<close> is the selection made
  by the effect on the session list.\<close>

datatype Action =
    Frame int "GatewayEvent option"
  | AnimationFrame int
  | SetDraft string
  | Send int
  | NewSession int
  | SelectAgent string
  | SelectSession string
  | AutoSelectSession string
  | Jump
  | BannerTimeout int
  | Open
  | Close

fun step :: "Action \<Rightarrow> ChatState \<Rightarrow> ChatState" where
  "step (Frame now frame) s = onmessage now frame s"
| "step (AnimationFrame now) s = tick now s"
| "step (SetDraft d) s = s\<lparr>draft := d\<rparr>"
| "step (Send now) s = sendMessage now s"
| "step (NewSession now) s = startNewSession now s"
| "step (SelectAgent a) s = setSelectedAgent a (s\<lparr>userPickedSession := False\<rparr>)"
| "step (SelectSession sid) s = setSelectedSession sid (s\<lparr>userPickedSession := True\<rparr>)"
| "step (AutoSelectSession sid) s = setSelectedSession sid s"
| "step Jump s = jumpToOtherSession s"
| "step (BannerTimeout now) s = bannerTimeout now s"
| "step Open s = onopen s"
| "step Close s = onclose s"

fun run :: "Action list \<Rightarrow> ChatState \<Rightarrow> ChatState" where
  "run [] s = s"
| "run (a # as) s = run as (step a s)"

text \<open>Frames used in the scenarios below: a frame with no field set, a text delta and
  the done marker of a stream for an agent, and a user message echoed by the gateway.\<close>

definition emptyEvent :: GatewayEvent where
  "emptyEvent =
     \<lparr> ev_type = None, ev_agents = None, ev_agent = None, ev_agent_id = None,
       ev_session = None, ev_session_id = None, ev_role = None, ev_content = JUndefined,
       ev_message = JUndefined, ev_response = JUndefined, ev_error = JUndefined,
       ev_delta = None, ev_done = None, ev_tool = None, ev_timestamp = None,
       ev_tokens = None, ev_duration_ms = None, ev_model_calls = None,
       ev_tool_calls = None \<rparr>"

definition deltaEvent :: "string \<Rightarrow> string \<Rightarrow> GatewayEvent" where
  "deltaEvent agent d =
     emptyEvent\<lparr>ev_type := Some ''stream_delta'', ev_agent := Some agent, ev_delta := Some d\<rparr>"

definition doneEvent :: "string \<Rightarrow> GatewayEvent" where
  "doneEvent agent =
     emptyEvent\<lparr>ev_type := Some ''stream_delta'', ev_agent := Some agent, ev_done := Some True\<rparr>"

definition userEchoEvent :: "string \<Rightarrow> string \<Rightarrow> GatewayEvent" where
  "userEchoEvent agent c =
     emptyEvent\<lparr>ev_type := Some ''session_message'', ev_agent := Some agent,
       ev_role := Some ''user'', ev_content := JString c\<rparr>"

text \<open>The state that a change of the agent or of the session resets, as one value.\<close>

definition perSessionState ::
  "ChatState \<Rightarrow>
   LiveMessage list \<times> ReceiptItem list \<times> ActivityItem list \<times> string set \<times> string \<times> string \<times>
   nat \<times> string \<times> bool \<times> string option \<times> bool \<times> string \<times> (string \<times> string) option" where
  "perSessionState s =
     (liveMessages s, receipts s, activityItems s, seenKeys s,
      streamBufferRef s, streamBuffer s, revealedLen s, displayedStream s,
      isStreaming s, pendingFinalize s, typing s, typingLabel s, otherSession s)"

text \<open>A view in the middle of an assistant turn for agent \<open>a\<close> in session \<open>ses\<close>: the
  text \<open>buf\<close> has arrived, a frame is requested, the revealed prefix is within the text,
  and the transcript and the seen keys are \<open>msgs\<close> and \<open>keys\<close>. \<open>streaming\<close> and \<open>pend\<close>
  say whether the done marker has arrived.\<close>

definition streamTurn ::
  "string \<Rightarrow> string \<Rightarrow> LiveMessage list \<Rightarrow> string set \<Rightarrow> string \<Rightarrow> bool \<Rightarrow> string option \<Rightarrow>
   ChatState \<Rightarrow> bool" where
  "streamTurn a ses msgs keys buf streaming pend s \<longleftrightarrow>
     selectedAgent s = a \<and> selectedSession s = ses \<and> liveMessages s = msgs \<and>
     seenKeys s = keys \<and> streamBufferRef s = buf \<and> streamBuffer s = buf \<and>
     isStreaming s = streaming \<and> pendingFinalize s = pend \<and> revealRaf s \<and>
     revealedLen s \<le> length buf"

section \<open>HTML escaping and the markdown renderer (chat.tsx)\<close>

text \<open>\<open>text.replace(/c/g, rep)\<close> for a pattern that is one literal character.\<close>

definition replaceAllChar :: "char \<Rightarrow> string \<Rightarrow> string \<Rightarrow> string" where
  "replaceAllChar c rep s = concat (map (\<lambda>x. if x = c then rep else [x]) s)"

definition escapeHtml :: "string \<Rightarrow> string" where
  "escapeHtml str =
     replaceAllChar CHR ''>'' ''&gt;''
       (replaceAllChar CHR ''<'' ''&lt;'' (replaceAllChar CHR ''&'' ''&amp;'' str))"


subsection \<open>Marked text\<close>

text \<open>
  To tell where a character of the rendered HTML stems from, the renderer is run on marked
  text: every character carries a flag, which is \<open>True\<close> for a character of the source text
  and \<open>False\<close> for a character that the renderer wrote (a literal or a template of its
  code). A character that is copied keeps its flag. No test of the renderer reads a flag:
  \<open>plain\<close> gives the string that the code holds.
\<close>

type_synonym marked = "(char \<times> bool) list"

definition fromSource :: "string \<Rightarrow> marked" where
  "fromSource str = map (\<lambda>c. (c, True)) str"

definition lit :: "string \<Rightarrow> marked" where
  "lit str = map (\<lambda>c. (c, False)) str"

definition plain :: "marked \<Rightarrow> string" where
  "plain s = map fst s"

subsection \<open>Regular expressions\<close>

text \<open>
  The engine of regular expressions belongs to the runtime, not to the repository. A
  regular expression with the flag \<open>g\<close> is taken as the function that gives, for a subject
  string, its successive matches from left to right: the offsets at which a match starts
  and ends and, for every capture group, the offsets of its text. The renderer's twelve
  expressions are the fields of \<open>Regexes\<close>, in the order of their use: the code fence, the
  inline code, \<open>**\<close>, \<open>*\<close>, the three headings, the two kinds of list, the link, the
  horizontal rule and the \<open><pre>\<close> block of the final split.
\<close>

record Match =
  m_start :: nat
  m_end :: nat
  m_groups :: "(nat \<times> nat) list"

record Regexes =
  re_fence :: "string \<Rightarrow> Match list"
  re_code :: "string \<Rightarrow> Match list"
  re_strong :: "string \<Rightarrow> Match list"
  re_em :: "string \<Rightarrow> Match list"
  re_h4 :: "string \<Rightarrow> Match list"
  re_h3 :: "string \<Rightarrow> Match list"
  re_h2 :: "string \<Rightarrow> Match list"
  re_ul :: "string \<Rightarrow> Match list"
  re_ol :: "string \<Rightarrow> Match list"
  re_link :: "string \<Rightarrow> Match list"
  re_hr :: "string \<Rightarrow> Match list"
  re_pre :: "string \<Rightarrow> Match list"

text \<open>\<open>slice(i, j)\<close> for offsets that are not negative, and the text of capture group
  \<open>k\<close> of a match, which is empty for a group that took no part.\<close>

definition slice :: "nat \<Rightarrow> nat \<Rightarrow> 'a list \<Rightarrow> 'a list" where
  "slice i j s = take (j - i) (drop i s)"

definition group :: "nat \<Rightarrow> Match \<Rightarrow> marked \<Rightarrow> marked" where
  "group k m s =
     (if 0 < k \<and> k \<le> length (m_groups m)
      then slice (fst (m_groups m ! (k - 1))) (snd (m_groups m ! (k - 1))) s
      else [])"

text \<open>\<open>subject.replace(regex, replacement)\<close>: the text between the matches is kept and
  every match gives way to its replacement, which is computed from the match and the
  subject.\<close>

fun replaceFrom :: "nat \<Rightarrow> Match list \<Rightarrow> (Match \<Rightarrow> marked) \<Rightarrow> marked \<Rightarrow> marked" where
  "replaceFrom pos [] f s = drop pos s"
| "replaceFrom pos (m # ms) f s = slice pos (m_start m) s @ f m @ replaceFrom (m_end m) ms f s"

definition replaceRegex ::
  "(string \<Rightarrow> Match list) \<Rightarrow> (Match \<Rightarrow> marked \<Rightarrow> marked) \<Rightarrow> marked \<Rightarrow> marked" where
  "replaceRegex regex replacement s =
     replaceFrom 0 (regex (plain s)) (\<lambda>m. replacement m s) s"

text \<open>A replacement given as a string: literal text (\<open>Inl\<close>) and references \<open>$k\<close> to
  capture groups (\<open>Inr k\<close>).\<close>

fun template :: "(string + nat) list \<Rightarrow> Match \<Rightarrow> marked \<Rightarrow> marked" where
  "template [] m s = []"
| "template (Inl str # ps) m s = lit str @ template ps m s"
| "template (Inr k # ps) m s = group k m s @ template ps m s"

text \<open>\<open>subject.split(regex)\<close>: the pieces between the matches, each followed by the
  capture groups of the match after it.\<close>

fun splitFrom :: "nat \<Rightarrow> Match list \<Rightarrow> marked \<Rightarrow> marked list" where
  "splitFrom pos [] s = [drop pos s]"
| "splitFrom pos (m # ms) s =
     slice pos (m_start m) s # map (\<lambda>g. slice (fst g) (snd g) s) (m_groups m) @
     splitFrom (m_end m) ms s"

definition splitRegex :: "(string \<Rightarrow> Match list) \<Rightarrow> marked \<Rightarrow> marked list" where
  "splitRegex regex s = splitFrom 0 (regex (plain s)) s"

text \<open>\<open>block.split(sep)\<close> for a separator of one character, which is the line feed in
  the renderer.\<close>

fun splitOn :: "char \<Rightarrow> marked \<Rightarrow> marked list" where
  "splitOn c [] = [[]]"
| "splitOn c (x # xs) =
     (if fst x = c then [] # splitOn c xs
      else (case splitOn c xs of [] \<Rightarrow> [[x]] | l # ls \<Rightarrow> (x # l) # ls))"

text \<open>The replacements inside the callbacks: a line feed that ends the code is dropped;
  the bullet \<open>- \<close> that starts a line is dropped; the digits, the dot and the white space
  that start a line are dropped.\<close>

definition dropFinalNewline :: "marked \<Rightarrow> marked" where
  "dropFinalNewline code = (if code \<noteq> [] \<and> fst (last code) = CHR 0x0A then butlast code else code)"

definition stripBullet :: "marked \<Rightarrow> marked" where
  "stripBullet line = (if take 2 (plain line) = ''- '' then drop 2 line else line)"

definition is_digit :: "char \<Rightarrow> bool" where
  "is_digit c \<longleftrightarrow> c \<in> set ''0123456789''"

definition stripNumber :: "marked \<Rightarrow> marked" where
  "stripNumber line =
     (let n = length (takeWhile is_digit (plain line)) in
      if 0 < n \<and> n < length line \<and> fst (line ! n) = CHR ''.''
      then dropWhile (\<lambda>x. is_space (fst x)) (drop (n + 1) line)
      else line)"

text \<open>The callback of the code fence, and the callback of the two kinds of list, which
  differ in the tags and in what is stripped from a line.\<close>

definition fenceBlock :: "Match \<Rightarrow> marked \<Rightarrow> marked" where
  \<open>fenceBlock m s =
     (let lang = group 1 m s;
          code = group 2 m s;
          cls = (if lang = [] then [] else lit '' class="lang-'' @ lang @ lit ''"'')
      in lit ''<pre><code'' @ cls @ lit ''>'' @ dropFinalNewline code @ lit ''</code></pre>'')\<close>

definition listBlock :: "string \<Rightarrow> string \<Rightarrow> (marked \<Rightarrow> marked) \<Rightarrow> Match \<Rightarrow> marked \<Rightarrow> marked" where
  "listBlock opening closing strip m s =
     (let pre = group 1 m s;
          block = group 2 m s;
          items = concat (map (\<lambda>line. lit ''<li>'' @ strip line @ lit ''</li>'')
                            (splitOn CHR 0x0A block))
      in pre @ lit opening @ items @ lit closing)"

text \<open>\<open>escapeHtml\<close> on marked text, and \<open>renderMarkdownHtml\<close>.\<close>

definition replaceAllMarked :: "char \<Rightarrow> string \<Rightarrow> marked \<Rightarrow> marked" where
  "replaceAllMarked c rep s = concat (map (\<lambda>x. if fst x = c then lit rep else [x]) s)"

definition escapeHtmlMarked :: "marked \<Rightarrow> marked" where
  "escapeHtmlMarked str =
     replaceAllMarked CHR ''>'' ''&gt;''
       (replaceAllMarked CHR ''<'' ''&lt;'' (replaceAllMarked CHR ''&'' ''&amp;'' str))"

definition renderMarkdownHtml :: "Regexes \<Rightarrow> marked \<Rightarrow> marked" where
  \<open>renderMarkdownHtml re src =
     (if src = [] then []
      else
        let html = escapeHtmlMarked src;
            html = replaceRegex (re_fence re) fenceBlock html;
            html = replaceRegex (re_code re) (template [Inl ''<code>'', Inr 1, Inl ''</code>'']) html;
            html = replaceRegex (re_strong re)
                     (template [Inl ''<strong>'', Inr 1, Inl ''</strong>'']) html;
            html = replaceRegex (re_em re) (template [Inl ''<em>'', Inr 1, Inl ''</em>'']) html;
            html = replaceRegex (re_h4 re) (template [Inl ''<h4>'', Inr 1, Inl ''</h4>'']) html;
            html = replaceRegex (re_h3 re) (template [Inl ''<h3>'', Inr 1, Inl ''</h3>'']) html;
            html = replaceRegex (re_h2 re) (template [Inl ''<h2>'', Inr 1, Inl ''</h2>'']) html;
            html = replaceRegex (re_ul re) (listBlock ''<ul>'' ''</ul>'' stripBullet) html;
            html = replaceRegex (re_ol re) (listBlock ''<ol>'' ''</ol>'' stripNumber) html;
            html = replaceRegex (re_link re)
                     (template [Inl ''<a href="'', Inr 2,
                                Inl ''" target="_blank" rel="noopener noreferrer">'', Inr 1,
                                Inl ''</a>'']) html;
            html = replaceRegex (re_hr re) (template [Inl ''<hr>'']) html;
            parts = splitRegex (re_pre re) html
        in concat (map (\<lambda>part. if take 5 (plain part) = ''<pre>'' then part
                                  else replaceAllMarked CHR 0x0A ''<br>'' part) parts))\<close>



text \<open>No \<open><\<close> and no \<open>>\<close> of a marked text stems from the source.\<close>

definition noSourceAngle :: "marked \<Rightarrow> bool" where
  "noSourceAngle s \<longleftrightarrow> (\<forall>x\<in>set s. snd x \<longrightarrow> fst x \<noteq> CHR ''<'' \<and> fst x \<noteq> CHR ''>'')"

section \<open>The legacy view (static/app.js, static/views/chat.js)\<close>

text \<open>\<open>renderMarkdown\<close> (chat.js): the same chain, with the escaping written out in its
  first statement and another \<open>rel\<close> in the link.\<close>

definition renderMarkdown :: "Regexes \<Rightarrow> marked \<Rightarrow> marked" where
  \<open>renderMarkdown re src =
     (if src = [] then []
      else
        let h = replaceAllMarked CHR ''>'' ''&gt;''
                  (replaceAllMarked CHR ''<'' ''&lt;'' (replaceAllMarked CHR ''&'' ''&amp;'' src));
            h = replaceRegex (re_fence re) fenceBlock h;
            h = replaceRegex (re_code re) (template [Inl ''<code>'', Inr 1, Inl ''</code>'']) h;
            h = replaceRegex (re_strong re)
                  (template [Inl ''<strong>'', Inr 1, Inl ''</strong>'']) h;
            h = replaceRegex (re_em re) (template [Inl ''<em>'', Inr 1, Inl ''</em>'']) h;
            h = replaceRegex (re_h4 re) (template [Inl ''<h4>'', Inr 1, Inl ''</h4>'']) h;
            h = replaceRegex (re_h3 re) (template [Inl ''<h3>'', Inr 1, Inl ''</h3>'']) h;
            h = replaceRegex (re_h2 re) (template [Inl ''<h2>'', Inr 1, Inl ''</h2>'']) h;
            h = replaceRegex (re_ul re) (listBlock ''<ul>'' ''</ul>'' stripBullet) h;
            h = replaceRegex (re_ol re) (listBlock ''<ol>'' ''</ol>'' stripNumber) h;
            h = replaceRegex (re_link re)
                  (template [Inl ''<a href="'', Inr 2,
                             Inl ''" target="_blank" rel="noopener">'', Inr 1,
                             Inl ''</a>'']) h;
            h = replaceRegex (re_hr re) (template [Inl ''<hr>'']) h;
            parts = splitRegex (re_pre re) h
        in concat (map (\<lambda>part. if take 5 (plain part) = ''<pre>'' then part
                                  else replaceAllMarked CHR 0x0A ''<br>'' part) parts))\<close>

text \<open>\<open>tsMs\<close>. The argument is absent, a number, or a string, which is carried with the
  time value that \<open>new Date(v).getTime()\<close> gives for it.\<close>

datatype ts_value = TsAbsent | TsNumber int | TsString string int

definition tsMs :: "ts_value \<Rightarrow> int" where
  "tsMs v =
     (case v of
        TsAbsent \<Rightarrow> 0
      | TsNumber n \<Rightarrow> if n = 0 then 0 else if n < 10 ^ 12 then n * 1000 else n
      | TsString str ms \<Rightarrow> if str = [] then 0 else ms)"

text \<open>The application shell: the socket, the toasts shown and the frames sent.\<close>

record AppState =
  app_wsOpen :: bool
  app_agentSelect :: string
  app_toasts :: "(string \<times> string) list"
  app_sent :: "ClientCommand list"

text \<open>\<open>sendCommand\<close> (app.js).\<close>

definition sendCommand :: "string \<Rightarrow> string \<Rightarrow> AppState \<Rightarrow> AppState" where
  "sendCommand cmd targetAgent a =
     (if app_wsOpen a then
        a\<lparr>app_sent :=
            app_sent a @
              [\<lparr>command = cmd,
                target_agent =
                  (if targetAgent \<noteq> [] then targetAgent
                   else if app_agentSelect a \<noteq> [] then app_agentSelect a
                   else ''default'')\<rparr>]\<rparr>
      else a\<lparr>app_toasts := app_toasts a @ [(''Not connected'', ''error'')]\<rparr>)"

text \<open>The chat view of the legacy shell, as far as sending, the dedup of echoed
  messages, streaming and the loading of a session use it. An entry is a child of the
  message list, with the time labels left out; \<open>StreamEntry\<close> is the element that
  \<open>streamingDiv\<close> refers to, whose content is the rendering of \<open>streamingText\<close>.
  \<open>streamingDiv\<close> says that the variable of that name is not null, \<open>bannerVisible\<close>
  that the other-session banner is displayed, \<open>bannerTimer\<close> holds the time at which
  its pending timeout fires, and \<open>sessionListFetches\<close> counts the calls of
  \<open>loadSessionList\<close>. The blocks of tool activity are left out.\<close>

datatype Entry =
  UserEntry string | SystemEntry string | AssistantEntry string string | StreamEntry

record LegacyChat =
  chatAgent :: string
  currentSessionId :: "string option"
  activeServerSession :: "string option"
  sessionListFetches :: nat
  inputValue :: string
  entries :: "Entry list"
  seenMessages :: "string set"
  pendingDedup :: "string \<rightharpoonup> int"
  typingVisible :: bool
  typingText :: string
  streamingDiv :: bool
  streamingText :: string
  bannerVisible :: bool
  bannerLabel :: string
  bannerTimer :: "int option"
  app :: AppState

text \<open>\<open>msgKey\<close> and \<open>contentKey\<close>; an absent or empty argument is \<open>None\<close> or empty.\<close>

definition contentKey :: "string option \<Rightarrow> string option \<Rightarrow> string" where
  "contentKey r c =
     (case r of Some x \<Rightarrow> x | None \<Rightarrow> []) @ ''|'' @
     take 120 (case c of Some x \<Rightarrow> x | None \<Rightarrow> [])"

definition msgKey :: "string option \<Rightarrow> string option \<Rightarrow> int option \<Rightarrow> string" where
  "msgKey r c ts =
     contentKey r c @ ''|'' @
     (case ts of None \<Rightarrow> [] | Some t \<Rightarrow> if t = 0 then [] else number_to_string t)"

text \<open>\<open>a || b\<close> on optional strings.\<close>

definition str_or :: "string option \<Rightarrow> string option \<Rightarrow> string option" where
  "str_or x y = (case x of None \<Rightarrow> y | Some v \<Rightarrow> if v = [] then y else Some v)"

text \<open>\<open>sendMessage\<close> (chat.js).\<close>

definition legacySendMessage :: "int \<Rightarrow> LegacyChat \<Rightarrow> LegacyChat" where
  "legacySendMessage now v =
     (let msg = trim (inputValue v) in
      if msg = [] then v
      else
        v\<lparr>app := sendCommand msg (chatAgent v) (app v),
          entries := entries v @ [UserEntry msg],
          pendingDedup := (pendingDedup v)(contentKey (Some ''user'') (Some msg) \<mapsto> now),
          inputValue := [],
          typingVisible := True, typingText := thinkingLabel\<rparr>)"

text \<open>The \<open>session_message\<close> branch of \<open>onEvent\<close> (chat.js), for an event of the viewed
  session with the given role, content, response, message and timestamp.\<close>

definition legacySessionMessage ::
  "int \<Rightarrow> string option \<Rightarrow> string option \<Rightarrow> string option \<Rightarrow> string option \<Rightarrow> int option \<Rightarrow>
   LegacyChat \<Rightarrow> LegacyChat" where
  "legacySessionMessage now r c resp msg ts v =
     (let body = str_or c (str_or resp msg);
          key = msgKey r body ts;
          cKey = contentKey r body;
          shown =
            (if r = Some ''user'' then UserEntry (case str_or c None of Some x \<Rightarrow> x | None \<Rightarrow> [])
             else AssistantEntry (case str_or r None of Some x \<Rightarrow> x | None \<Rightarrow> ''assistant'')
                    (case str_or c (str_or resp msg) of Some x \<Rightarrow> x | None \<Rightarrow> []))
      in
      if key \<in> seenMessages v then v
      else
        (case pendingDedup v cKey of
           None \<Rightarrow> v\<lparr>seenMessages := insert key (seenMessages v), entries := entries v @ [shown]\<rparr>
         | Some t \<Rightarrow>
             if t = 0 then
               v\<lparr>seenMessages := insert key (seenMessages v), entries := entries v @ [shown]\<rparr>
             else if now - t < 30000 then v\<lparr>seenMessages := insert key (seenMessages v)\<rparr>
             else
               v\<lparr>pendingDedup := (pendingDedup v)(cKey := None),
                 seenMessages := insert key (seenMessages v),
                 entries := entries v @ [shown]\<rparr>))"

text \<open>The streaming functions of chat.js and the \<open>stream_delta\<close> branch of \<open>onEvent\<close>,
  for an event of the viewed session with the given delta and done flag.\<close>

definition getOrCreateStreamingMsg :: "LegacyChat \<Rightarrow> LegacyChat" where
  "getOrCreateStreamingMsg v =
     (if streamingDiv v then v
      else v\<lparr>streamingDiv := True, entries := entries v @ [StreamEntry], streamingText := []\<rparr>)"

definition appendStreamDelta :: "string \<Rightarrow> LegacyChat \<Rightarrow> LegacyChat" where
  "appendStreamDelta delta v =
     (let v1 = getOrCreateStreamingMsg v in v1\<lparr>streamingText := streamingText v1 @ delta\<rparr>)"

definition finaliseStream :: "int \<Rightarrow> LegacyChat \<Rightarrow> LegacyChat" where
  "finaliseStream now v =
     (if streamingDiv v then
        v\<lparr>entries :=
            map (\<lambda>e. if e = StreamEntry then AssistantEntry ''assistant'' (streamingText v) else e)
              (entries v),
          pendingDedup :=
            (pendingDedup v)(contentKey (Some ''assistant'') (Some (streamingText v)) \<mapsto> now)\<rparr>
      else v)
     \<lparr>streamingDiv := False, streamingText := []\<rparr>"

definition legacyStreamDelta :: "int \<Rightarrow> string option \<Rightarrow> bool \<Rightarrow> LegacyChat \<Rightarrow> LegacyChat" where
  "legacyStreamDelta now delta finished v =
     (let v1 = appendStreamDelta (case delta of Some d \<Rightarrow> d | None \<Rightarrow> [])
                 (v\<lparr>typingVisible := False\<rparr>)
      in if finished then finaliseStream now v1 else v1)"

text \<open>\<open>hideOtherSessionBanner\<close>, and the statements of \<open>loadSession\<close> that run before the
  session is fetched.\<close>

definition hideOtherSessionBanner :: "LegacyChat \<Rightarrow> LegacyChat" where
  "hideOtherSessionBanner v = v\<lparr>bannerVisible := False, bannerTimer := None\<rparr>"

definition loadSession :: "string \<Rightarrow> LegacyChat \<Rightarrow> LegacyChat" where
  "loadSession sid v =
     (let v1 = hideOtherSessionBanner
                 (v\<lparr>entries := [], seenMessages := {}, pendingDedup := Map.empty,
                    currentSessionId := Some sid\<rparr>)
      in v1\<lparr>entries := entries v1 @ [SystemEntry (''Loading session: '' @ sid @ ellipsis)]\<rparr>)"

text \<open>U+2014, the dash of the banner's label, in UTF-8.\<close>

definition emdash :: string where
  "emdash = [CHR 0xE2, CHR 0x80, CHR 0x94]"

text \<open>\<open>showOtherSessionBanner\<close>, and the branch of \<open>onEvent\<close> (chat.js) for an event whose
  session is not the viewed one, with the event's type, tool and done flag. On a
  \<open>turn_receipt\<close> the branch calls \<open>loadSessionList\<close>, which returns at once with its
  requests under way: \<open>sessionListFetches\<close> counts the calls, and \<open>loadSessionListDone\<close>
  below is what runs when the requests of a call have been answered.\<close>

definition showOtherSessionBanner :: "int \<Rightarrow> string \<Rightarrow> string \<Rightarrow> LegacyChat \<Rightarrow> LegacyChat" where
  "showOtherSessionBanner now sessionId detail v =
     (let label = (if sessionId = [] then ''another session'' else sessionId);
          shortened = (if length label > 30 then take 28 label @ ellipsis else label)
      in v\<lparr>bannerLabel :=
             ''Agent is working in: '' @ shortened @
             (if detail = [] then [] else '' '' @ emdash @ '' '' @ detail),
           bannerVisible := True,
           bannerTimer := Some (now + 30000)\<rparr>)"

definition legacyOtherSession ::
  "int \<Rightarrow> string \<Rightarrow> string option \<Rightarrow> bool \<Rightarrow> string \<Rightarrow> LegacyChat \<Rightarrow> LegacyChat" where
  "legacyOtherSession now ty tool finished eventSession v =
     (let v1 = v\<lparr>activeServerSession := Some eventSession\<rparr> in
      if ty = ''typing_start'' \<or> ty = ''tool_start'' \<or> ty = ''stream_delta'' then
        showOtherSessionBanner now eventSession
          (if ty = ''tool_start'' then ''running '' @ (case tool of Some n \<Rightarrow> if n = [] then ''tool'' else n | None \<Rightarrow> ''tool'')
           else if ty = ''stream_delta'' then ''responding'' @ ellipsis
           else ''thinking'' @ ellipsis) v1
      else if ty = ''typing_stop'' \<or> (ty = ''stream_delta'' \<and> finished) then
        v1\<lparr>bannerTimer := Some (now + 5000)\<rparr>
      else if ty = ''turn_receipt'' then
        v1\<lparr>sessionListFetches := sessionListFetches v1 + 1, bannerTimer := Some (now + 5000)\<rparr>
      else v1)"

text \<open>The completion of \<open>loadSessionList\<close>, with \<open>populateSessions\<close>: \<open>listed\<close> is the answer
  of \<open>listSessions\<close> and \<open>cur\<close> the session id in the answer of \<open>getCurrentSession\<close>, if
  it has one. An absent \<open>file\<close> is the empty string and an absent \<open>modified\<close> is 0. The
  options of the dropdown are left out. When a request fails, nothing is assigned.\<close>

record SessionInfo =
  si_session_id :: string
  si_file :: string
  si_modified :: int

definition loadSessionListDone :: "SessionInfo list \<Rightarrow> string option \<Rightarrow> LegacyChat \<Rightarrow> LegacyChat" where
  "loadSessionListDone listed cur v =
     (let sessions =
            sort_key (\<lambda>s. - si_modified s)
              (filter (\<lambda>s. si_file s \<noteq> [] \<and>
                           drop (length (si_file s) - 15) (si_file s) \<noteq> ''.receipts.jsonl'')
                 listed);
          first = (case sessions of [] \<Rightarrow> None | s # _ \<Rightarrow> Some (si_session_id s));
          activeId = (case cur of Some c \<Rightarrow> if c \<noteq> [] then Some c else first | None \<Rightarrow> first)
      in v\<lparr>activeServerSession := activeId,
           currentSessionId :=
             (case activeId of Some a \<Rightarrow> if a \<noteq> [] then Some a else first | None \<Rightarrow> first)\<rparr>)"

text \<open>The head of \<open>onEvent\<close> (chat.js): where an event goes. An agent list is handled
  apart; an event of another agent is dropped; an event with a session tag that differs
  from a known viewed session goes to the branch \<open>legacyOtherSession\<close>; every other event
  is handled as one of the viewed session, after its session tag, if it has one, is
  recorded as the server's.\<close>

datatype LegacyRoute =
  RouteAgentList | RouteDropped | RouteOtherSession string | RouteViewed "string option"

definition legacyRoute :: "GatewayEvent \<Rightarrow> LegacyChat \<Rightarrow> LegacyRoute" where
  "legacyRoute data v =
     (if ev_type data = Some ''agent_list'' \<or> ev_type data = Some ''list_agents'' then RouteAgentList
      else
        let agent = (case str_or (ev_agent data) (str_or (ev_agent_id data) None) of
                       Some a \<Rightarrow> a | None \<Rightarrow> []);
            eventSession = str_or (ev_session data) (str_or (ev_session_id data) None)
        in
        if agent \<noteq> chatAgent v then RouteDropped
        else
          (case eventSession of
             None \<Rightarrow> RouteViewed None
           | Some e \<Rightarrow>
               (case currentSessionId v of
                  None \<Rightarrow> RouteViewed (Some e)
                | Some c \<Rightarrow>
                    if c \<noteq> [] \<and> e \<noteq> c then RouteOtherSession e else RouteViewed (Some e))))"

text \<open>A legacy view that shows session \<open>sid\<close> of the default agent, with nothing in its
  message list.\<close>

definition legacyViewing :: "string \<Rightarrow> LegacyChat" where
  "legacyViewing sid =
     \<lparr> chatAgent = ''default'', currentSessionId = Some sid, activeServerSession = Some sid,
       sessionListFetches = 0, inputValue = [], entries = [],
       seenMessages = {}, pendingDedup = Map.empty, typingVisible = False,
       typingText = thinkingLabel, streamingDiv = False, streamingText = [],
       bannerVisible = False, bannerLabel = ''Agent is working in another session'',
       bannerTimer = None,
       app = \<lparr>app_wsOpen = True, app_agentSelect = ''default'', app_toasts = [], app_sent = []\<rparr> \<rparr>"

text \<open>A run of the legacy view: it shows session A of the default agent, with one
  message in its list; an event of session B of that agent; and the view after a
  \<open>turn_receipt\<close> of session B at time 5 and the completion of the refresh that it
  starts, when the server lists both sessions and names B as its current one.\<close>

definition legacyShowingA :: LegacyChat where
  "legacyShowingA = (legacyViewing ''A'')\<lparr>entries := [UserEntry ''question'']\<rparr>"

definition eventOfB :: "string \<Rightarrow> GatewayEvent" where
  "eventOfB ty =
     emptyEvent\<lparr>ev_type := Some ty, ev_agent := Some ''default'', ev_session := Some ''B'',
       ev_role := Some ''assistant'', ev_content := JString ''hi''\<rparr>"

definition legacyAfterReceipt :: LegacyChat where
  "legacyAfterReceipt =
     loadSessionListDone
       [\<lparr>si_session_id = ''A'', si_file = ''A.jsonl'', si_modified = 1\<rparr>,
        \<lparr>si_session_id = ''B'', si_file = ''B.jsonl'', si_modified = 2\<rparr>]
       (Some ''B'')
       (legacyOtherSession 5 ''turn_receipt'' None False ''B'' legacyShowingA)"

section \<open>Properties of the transcript merger\<close>

lemma number_to_string_example: "number_to_string 1700000000000 = ''1700000000000''"
  by (simp add: number_to_string_def digit_chars.simps)

lemma messageKey_with_timestamp:
  "t \<noteq> 0 \<Longrightarrow>
   messageKey (Some r) (JString c) (Some t) = r @ ''|'' @ take 200 c @ ''|'' @ number_to_string t"
  by (simp add: messageKey_def messageBaseKey_def)

lemma messageBaseKey_string:
  "messageBaseKey (Some r) (JString c) = r @ ''|'' @ take 200 c"
  by (simp add: messageBaseKey_def)

lemma mergeMessages_nonempty:
  assumes "p \<noteq> []" and "l \<noteq> []"
  shows "mergeMessages p l =
    p @ filter (\<lambda>m. liveKey m \<notin> liveKey ` set p \<and> liveBaseKey m \<notin> liveBaseKey ` set p) l"
proof -
  have "filter (\<lambda>m. if liveKey m \<in> set (map liveKey p) then False
                   else if liveBaseKey m \<in> set (map liveBaseKey p) then False else True) l =
        filter (\<lambda>m. liveKey m \<notin> liveKey ` set p \<and> liveBaseKey m \<notin> liveBaseKey ` set p) l"
    by (rule filter_cong) auto
  with assms show ?thesis
    unfolding mergeMessages_def Let_def by simp
qed

lemma mergeMessages_self: "mergeMessages l l = l"
proof (cases "l = []")
  case True
  then show ?thesis by (simp add: mergeMessages_def)
next
  case False
  then show ?thesis
    by (simp add: mergeMessages_nonempty filter_empty_conv)
qed

lemma mergeMessages_distinct:
  assumes "distinct p" and "distinct l"
  shows "distinct (mergeMessages p l)"
proof (cases "p = [] \<or> l = []")
  case True
  then show ?thesis
  proof
    assume "p = []"
    with assms show ?thesis by (simp add: mergeMessages_def)
  next
    assume "l = []"
    with assms show ?thesis by (simp add: mergeMessages_def)
  qed
next
  case False
  then have ne: "p \<noteq> []" "l \<noteq> []" by simp_all
  let ?d = "filter (\<lambda>m. liveKey m \<notin> liveKey ` set p \<and> liveBaseKey m \<notin> liveBaseKey ` set p) l"
  have "set p \<inter> set ?d = {}"
  proof (rule ccontr)
    assume "set p \<inter> set ?d \<noteq> {}"
    then obtain m where "m \<in> set p" and "m \<in> set ?d" by blast
    then have "liveKey m \<in> liveKey ` set p" and "liveKey m \<notin> liveKey ` set p"
      by simp_all
    then show False by simp
  qed
  moreover have "distinct ?d" using assms(2) by (rule distinct_filter)
  ultimately have "distinct (p @ ?d)" using assms(1) by (simp only: distinct_append simp_thms)
  then show ?thesis by (simp only: mergeMessages_nonempty[OF ne])
qed

text \<open>The decimal text of a number denotes the number, so that two numbers with the
  same text are the same.\<close>

lemma digit_table_value:
  assumes "n < 10"
  shows "of_char (''0123456789'' ! n) = (48 + n :: nat)"
proof -
  have codes: "map of_char ''0123456789'' = [48..<58 :: nat]"
    by (simp add: upt_rec)
  have nth: "(of_char (xs ! n) :: nat) = map of_char xs ! n" if "n < length xs" for xs
    using that by simp
  from assms have "n < length ''0123456789''" by simp
  then have "of_char (''0123456789'' ! n) = (map of_char ''0123456789'' ! n :: nat)"
    by (rule nth)
  also have "\<dots> = [48..<58] ! n" by (simp only: codes)
  also have "\<dots> = 48 + n"
  proof (rule nth_upt)
    from assms show "48 + n < 58" by simp
  qed
  finally show ?thesis .
qed

lemma digit_chars_value:
  "foldl (\<lambda>a c. 10 * a + (of_char c - 48)) 0 (digit_chars n) = n"
proof (induction n rule: digit_chars.induct)
  case (1 n)
  let ?f = "\<lambda>(a::nat) c. 10 * a + (of_char c - 48)"
  define d where "d = ''0123456789'' ! (n mod 10)"
  have "n mod 10 < 10" by simp
  then have dv: "of_char d = (48 + n mod 10 :: nat)"
    unfolding d_def by (rule digit_table_value)
  show ?case
  proof (cases "n < 10")
    case True
    then have "digit_chars n = [d]"
      unfolding d_def by (subst digit_chars.simps) simp
    with dv True show ?thesis by simp
  next
    case False
    then have ih: "foldl ?f 0 (digit_chars (n div 10)) = n div 10"
      using 1 by simp
    from False have "digit_chars n = digit_chars (n div 10) @ [d]"
      unfolding d_def by (subst digit_chars.simps) simp
    then have "foldl ?f 0 (digit_chars n) = 10 * foldl ?f 0 (digit_chars (n div 10)) + (of_char d - 48)"
      by (simp only: foldl_append foldl.simps)
    also have "\<dots> = 10 * (n div 10) + n mod 10"
      by (simp only: ih dv add_diff_cancel_left')
    also have "\<dots> = n" by simp
    finally show ?thesis .
  qed
qed

lemma digit_chars_inj:
  assumes "digit_chars n = digit_chars m"
  shows "n = m"
proof -
  have "n = foldl (\<lambda>a c. 10 * a + (of_char c - 48)) 0 (digit_chars n)"
    by (rule digit_chars_value[symmetric])
  also have "\<dots> = foldl (\<lambda>a c. 10 * a + (of_char c - 48)) 0 (digit_chars m)"
    by (simp only: assms)
  also have "\<dots> = m" by (rule digit_chars_value)
  finally show ?thesis .
qed

lemma digit_chars_no_minus: "CHR ''-'' \<notin> set (digit_chars n)"
proof (induction n rule: digit_chars.induct)
  case (1 n)
  define d where "d = ''0123456789'' ! (n mod 10)"
  have "n mod 10 < 10" by simp
  then have "of_char d = (48 + n mod 10 :: nat)"
    unfolding d_def by (rule digit_table_value)
  then have dm: "d \<noteq> CHR ''-''" by auto
  show ?case
  proof (cases "n < 10")
    case True
    then have "digit_chars n = [d]"
      unfolding d_def by (subst digit_chars.simps) simp
    with dm show ?thesis by simp
  next
    case False
    then have "digit_chars n = digit_chars (n div 10) @ [d]"
      unfolding d_def by (subst digit_chars.simps) simp
    with False 1 dm show ?thesis by simp
  qed
qed

lemma number_to_string_inj: "inj number_to_string"
proof (rule injI)
  fix i j :: int
  assume eq: "number_to_string i = number_to_string j"
  show "i = j"
  proof (cases "i < 0"; cases "j < 0")
    assume "i < 0" "j < 0"
    with eq have "digit_chars (nat (- i)) = digit_chars (nat (- j))"
      by (simp add: number_to_string_def)
    then have "nat (- i) = nat (- j)" by (rule digit_chars_inj)
    with \<open>i < 0\<close> \<open>j < 0\<close> show ?thesis by simp
  next
    assume "i < 0" "\<not> j < 0"
    with eq have "CHR ''-'' # digit_chars (nat (- i)) = digit_chars (nat j)"
      by (simp add: number_to_string_def)
    then have "CHR ''-'' \<in> set (digit_chars (nat j))" by (metis list.set_intros(1))
    then show ?thesis by (simp add: digit_chars_no_minus)
  next
    assume "\<not> i < 0" "j < 0"
    with eq have "digit_chars (nat i) = CHR ''-'' # digit_chars (nat (- j))"
      by (simp add: number_to_string_def)
    then have "CHR ''-'' \<in> set (digit_chars (nat i))" by (metis list.set_intros(1))
    then show ?thesis by (simp add: digit_chars_no_minus)
  next
    assume "\<not> i < 0" "\<not> j < 0"
    with eq have "digit_chars (nat i) = digit_chars (nat j)"
      by (simp add: number_to_string_def)
    then have "nat i = nat j" by (rule digit_chars_inj)
    with \<open>\<not> i < 0\<close> \<open>\<not> j < 0\<close> show ?thesis by simp
  qed
qed

text \<open>The keys, the persisted list and the merge, written out.\<close>

lemma liveBaseKey_text: "liveBaseKey m = role m @ ''|'' @ take 200 (content m)"
  by (simp add: liveBaseKey_def messageBaseKey_def)

lemma liveKey_text:
  "liveKey m =
     role m @ ''|'' @ take 200 (content m) @
     (if timestamp m = 0 then [] else ''|'' @ number_to_string (timestamp m))"
  by (simp add: liveKey_def messageKey_def messageBaseKey_def)

lemma persisted_text:
  "persisted now messages =
     map (\<lambda>x. \<lparr>role = (case sm_role x of Some r \<Rightarrow> r | None \<Rightarrow> ''assistant''),
               content = toText (sm_content x),
               timestamp = (case sm_timestamp x of Some t \<Rightarrow> t | None \<Rightarrow> now)\<rparr>)
       (filter (\<lambda>x. sm_role x \<noteq> None \<and> sm_role x \<noteq> Some [] \<and>
                     sm_content x \<notin> {JUndefined, JNull, JString []}) messages)"
proof -
  have "filter keepPersisted messages =
        filter (\<lambda>x. sm_role x \<noteq> None \<and> sm_role x \<noteq> Some [] \<and>
                     sm_content x \<notin> {JUndefined, JNull, JString []}) messages"
    by (rule filter_cong) (auto simp: keepPersisted_def split: option.splits)
  moreover have "normalizeMessage now =
     (\<lambda>x. \<lparr>role = (case sm_role x of Some r \<Rightarrow> r | None \<Rightarrow> ''assistant''),
               content = toText (sm_content x),
               timestamp = (case sm_timestamp x of Some t \<Rightarrow> t | None \<Rightarrow> now)\<rparr>)"
    by (rule ext) (simp add: normalizeMessage_def)
  ultimately show ?thesis by (simp only: persisted_def)
qed

lemma mergeMessages_cases:
  "mergeMessages p l =
     (if p = [] then l else if l = [] then p
      else p @ filter (\<lambda>m. liveKey m \<notin> liveKey ` set p \<and> liveBaseKey m \<notin> liveBaseKey ` set p) l)"
proof -
  have "filter (\<lambda>m. if liveKey m \<in> set (map liveKey p) then False
                   else if liveBaseKey m \<in> set (map liveBaseKey p) then False else True) l =
        filter (\<lambda>m. liveKey m \<notin> liveKey ` set p \<and> liveBaseKey m \<notin> liveBaseKey ` set p) l"
    by (rule filter_cong) auto
  then show ?thesis
    unfolding mergeMessages_def Let_def by simp
qed

text \<open>
  Claim C1 (transcript merge correctness). Of the fetched messages, \<open>allMessages\<close> keeps
  those with a role and a content that is not empty, normalised: this is the persisted
  list. The transcript is the live list when the persisted list is empty, the persisted
  list when the live list is empty, and otherwise the persisted list followed, in the live
  list's order, by exactly the live messages whose exact key is not the exact key of a
  persisted message and whose base key is not the base key of a persisted message. The
  keys are written out: the base key is the role, a bar and the first 200 characters of
  the content; the exact key is the base key, a bar and the decimal text of the timestamp,
  and the base key alone for the timestamp 0. The text of a content that is a string is
  the string; the text of a timestamp is its decimal numeral, and two timestamps with the
  same text are the same.
\<close>

theorem allMessages_merge_correct:
  "allMessages now messages l =
     (let p = persisted now messages;
          exactKey = (\<lambda>m. role m @ ''|'' @ take 200 (content m) @
                            (if timestamp m = 0 then []
                             else ''|'' @ number_to_string (timestamp m)));
          baseKey = (\<lambda>m. role m @ ''|'' @ take 200 (content m))
      in if p = [] then l
         else if l = [] then p
         else p @ filter (\<lambda>m. exactKey m \<notin> exactKey ` set p \<and> baseKey m \<notin> baseKey ` set p) l) \<and>
   persisted now messages =
     map (\<lambda>x. \<lparr>role = (case sm_role x of Some r \<Rightarrow> r | None \<Rightarrow> ''assistant''),
               content = toText (sm_content x),
               timestamp = (case sm_timestamp x of Some t \<Rightarrow> t | None \<Rightarrow> now)\<rparr>)
       (filter (\<lambda>x. sm_role x \<noteq> None \<and> sm_role x \<noteq> Some [] \<and>
                     sm_content x \<notin> {JUndefined, JNull, JString []}) messages) \<and>
   toText (JString c) = c \<and>
   inj number_to_string \<and>
   foldl (\<lambda>a d. 10 * a + (of_char d - 48)) 0 (number_to_string (int n)) = n \<and>
   number_to_string 1700000000000 = ''1700000000000''"
proof -
  have k: "liveKey = (\<lambda>m. role m @ ''|'' @ take 200 (content m) @
                            (if timestamp m = 0 then []
                             else ''|'' @ number_to_string (timestamp m)))"
    by (rule ext) (rule liveKey_text)
  have b: "liveBaseKey = (\<lambda>m. role m @ ''|'' @ take 200 (content m))"
    by (rule ext) (rule liveBaseKey_text)
  have "allMessages now messages l =
     (let p = persisted now messages
      in if p = [] then l
         else if l = [] then p
         else p @ filter (\<lambda>m. liveKey m \<notin> liveKey ` set p \<and> liveBaseKey m \<notin> liveBaseKey ` set p) l)"
    unfolding allMessages_def Let_def by (rule mergeMessages_cases)
  then have 1: "allMessages now messages l =
     (let p = persisted now messages;
          exactKey = (\<lambda>m. role m @ ''|'' @ take 200 (content m) @
                            (if timestamp m = 0 then []
                             else ''|'' @ number_to_string (timestamp m)));
          baseKey = (\<lambda>m. role m @ ''|'' @ take 200 (content m))
      in if p = [] then l
         else if l = [] then p
         else p @ filter (\<lambda>m. exactKey m \<notin> exactKey ` set p \<and> baseKey m \<notin> baseKey ` set p) l)"
    unfolding Let_def k[symmetric] b[symmetric] .
  have 2: "number_to_string 1700000000000 = ''1700000000000''"
    by (simp add: number_to_string_def digit_chars.simps)
  have 3: "foldl (\<lambda>a d. 10 * a + (of_char d - 48)) 0 (number_to_string (int n)) = n"
    using digit_chars_value[of n] by (simp add: number_to_string_def)
  from 1 persisted_text[of now messages] number_to_string_inj 2 3 show ?thesis
    by simp
qed

text \<open>One transcript, computed: the fetched message without a role and the one with
  the empty content are dropped, and the live message with the base key of a persisted
  message is left out.\<close>

lemma allMessages_example:
  "allMessages 9
     [\<lparr>sm_role = Some ''user'', sm_content = JString ''hi'', sm_timestamp = Some 5\<rparr>,
      \<lparr>sm_role = None, sm_content = JString ''dropped'', sm_timestamp = None\<rparr>,
      \<lparr>sm_role = Some ''assistant'', sm_content = JString [], sm_timestamp = Some 6\<rparr>]
     [\<lparr>role = ''user'', content = ''hi'', timestamp = 7\<rparr>,
      \<lparr>role = ''assistant'', content = ''yo'', timestamp = 8\<rparr>] =
   [\<lparr>role = ''user'', content = ''hi'', timestamp = 5\<rparr>,
    \<lparr>role = ''assistant'', content = ''yo'', timestamp = 8\<rparr>]"
  by (simp add: allMessages_def persisted_def keepPersisted_def normalizeMessage_def
      mergeMessages_def liveKey_def liveBaseKey_def messageKey_def messageBaseKey_def
      number_to_string_def digit_chars.simps Let_def)

lemma mergeMessages_idem: "mergeMessages (mergeMessages q l) l = mergeMessages q l"
proof (cases "q = []")
  case True
  then show ?thesis by (simp add: mergeMessages_def mergeMessages_self)
next
  case False
  show ?thesis
  proof (cases "l = []")
    case True
    then show ?thesis by (simp add: mergeMessages_def)
  next
    case l: False
    let ?fresh = "\<lambda>q m. liveKey m \<notin> liveKey ` set q \<and> liveBaseKey m \<notin> liveBaseKey ` set q"
    let ?r = "q @ filter (?fresh q) l"
    have r: "mergeMessages q l = ?r"
      using False l by (rule mergeMessages_nonempty)
    have "?r \<noteq> []" using False by simp
    then have "mergeMessages ?r l = ?r @ filter (?fresh ?r) l"
      using l by (rule mergeMessages_nonempty)
    moreover have "filter (?fresh ?r) l = []"
      unfolding filter_empty_conv
    proof
      fix m assume m: "m \<in> set l"
      show "\<not> ?fresh ?r m"
      proof (cases "?fresh q m")
        case True
        with m have "m \<in> set ?r" by simp
        then have "liveKey m \<in> liveKey ` set ?r" by (rule imageI)
        then show ?thesis by blast
      next
        case False
        then show ?thesis by auto
      qed
    qed
    ultimately show ?thesis using r by simp
  qed
qed

text \<open>
  Claim C3 (merge idempotence). Merging the live list into the result of merging it into
  the persisted list gives that result again, for every pair of lists and so for the
  transcript computed from any fetched messages; and the merge of two lists without
  repeated entries has no repeated entry.
\<close>

theorem mergeMessages_idempotent:
  "mergeMessages (mergeMessages p l) l = mergeMessages p l \<and>
   mergeMessages (allMessages now messages l) l = allMessages now messages l \<and>
   (distinct p \<and> distinct l \<longrightarrow> distinct (mergeMessages p l))"
  using mergeMessages_idem[of p l] mergeMessages_idem[of "persisted now messages" l]
    mergeMessages_distinct[of p l]
  by (simp add: allMessages_def)

theorem mergeMessages_idempotent_witness:
  "mergeMessages
     (mergeMessages [\<lparr>role = ''user'', content = ''hi'', timestamp = 5\<rparr>]
        [\<lparr>role = ''user'', content = ''hi'', timestamp = 7\<rparr>,
         \<lparr>role = ''assistant'', content = ''yo'', timestamp = 8\<rparr>])
     [\<lparr>role = ''user'', content = ''hi'', timestamp = 7\<rparr>,
      \<lparr>role = ''assistant'', content = ''yo'', timestamp = 8\<rparr>] =
   mergeMessages [\<lparr>role = ''user'', content = ''hi'', timestamp = 5\<rparr>]
     [\<lparr>role = ''user'', content = ''hi'', timestamp = 7\<rparr>,
      \<lparr>role = ''assistant'', content = ''yo'', timestamp = 8\<rparr>] \<and>
   distinct
     (mergeMessages [\<lparr>role = ''user'', content = ''hi'', timestamp = 5\<rparr>]
        [\<lparr>role = ''user'', content = ''hi'', timestamp = 7\<rparr>,
         \<lparr>role = ''assistant'', content = ''yo'', timestamp = 8\<rparr>])"
  using mergeMessages_idempotent[of
      "[\<lparr>role = ''user'', content = ''hi'', timestamp = 5\<rparr>]"
      "[\<lparr>role = ''user'', content = ''hi'', timestamp = 7\<rparr>,
        \<lparr>role = ''assistant'', content = ''yo'', timestamp = 8\<rparr>]"]
  by simp

section \<open>The stream accumulator: finalize after the reveal has caught up\<close>

lemma trim_Hello: "trim ''Hello'' = ''Hello''"
  by (simp add: trim_def is_space_def)

lemma onmessage_delta:
  assumes "d \<noteq> []" and "streamBuffer s = streamBufferRef s"
  shows "onmessage now (Some (deltaEvent (selectedAgent s) d)) s =
           s\<lparr>streamBufferRef := streamBufferRef s @ d, isStreaming := True,
             streamBuffer := streamBufferRef s @ d, revealRaf := True\<rparr>"
proof -
  have "onmessageBody now (deltaEvent (selectedAgent s) d) s =
          s\<lparr>streamBufferRef := streamBufferRef s @ d, isStreaming := True,
            streamBuffer := streamBufferRef s @ d\<rparr>"
    using assms(1)
    by (simp add: onmessageBody_def deltaEvent_def emptyEvent_def handleViewed_def
        streamDelta_def Let_def)
  then show ?thesis
    using assms by (simp add: onmessage_def commitStreamBuffer_def revealEffect_def Let_def)
qed

lemma onmessage_done:
  assumes "streamBufferRef s \<noteq> []" and "streamBuffer s = streamBufferRef s"
  shows "onmessage now (Some (doneEvent (selectedAgent s))) s =
           s\<lparr>isStreaming := False, pendingFinalize := Some (trim (streamBufferRef s))\<rparr>"
proof -
  have "onmessageBody now (doneEvent (selectedAgent s)) s =
          s\<lparr>isStreaming := False, pendingFinalize := Some (trim (streamBufferRef s)),
            streamBuffer := streamBufferRef s\<rparr>"
    using assms(1)
    by (simp add: onmessageBody_def doneEvent_def emptyEvent_def handleViewed_def
        streamDelta_def Let_def)
  then show ?thesis
    using assms(2) by (simp add: onmessage_def commitStreamBuffer_def)
qed

lemma tick_streaming:
  assumes "isStreaming s" and "revealRaf s"
  shows "tick now s =
           (if revealedLen s < length (streamBufferRef s) then
              s\<lparr>revealedLen := min (revealedLen s + 3) (length (streamBufferRef s)),
                displayedStream :=
                  take (min (revealedLen s + 3) (length (streamBufferRef s))) (streamBufferRef s)\<rparr>
            else s)"
  using assms
  by (simp add: tick_def tickBody_def commitStreamBuffer_def Let_def CHARS_PER_FRAME_def)

lemma tick_reveal:
  assumes "revealRaf s" and "revealedLen s < length (streamBufferRef s)"
  shows "tick now s =
           s\<lparr>revealedLen := min (revealedLen s + 3) (length (streamBufferRef s)),
             displayedStream :=
               take (min (revealedLen s + 3) (length (streamBufferRef s))) (streamBufferRef s)\<rparr>"
  using assms
  by (simp add: tick_def tickBody_def commitStreamBuffer_def Let_def CHARS_PER_FRAME_def)

lemma tick_finalize:
  assumes "revealRaf s" and "\<not> isStreaming s" and "streamBufferRef s \<noteq> []"
    and "revealedLen s = length (streamBufferRef s)" and "pendingFinalize s = Some c"
    and "streamBuffer s = streamBufferRef s"
  shows "tick now s = (runFinalize now c s)\<lparr>pendingFinalize := None, revealRaf := False\<rparr>"
  using assms
  by (simp add: tick_def tickBody_def commitStreamBuffer_def revealEffect_def runFinalize_def
      Let_def)

lemma tick_no_frame: "\<not> revealRaf s \<Longrightarrow> tick now s = s"
  by (simp add: tick_def)

lemma ticks_no_frame: "\<not> revealRaf s \<Longrightarrow> ticks ts s = s"
  by (induction ts) (simp_all add: tick_no_frame)

lemma streamTurn_tick_streaming:
  assumes "streamTurn a ses msgs keys buf True None s"
  shows "streamTurn a ses msgs keys buf True None (tick now s)"
proof -
  from assms have "isStreaming s" "revealRaf s" by (simp_all add: streamTurn_def)
  note tk = tick_streaming[OF this, of now]
  show ?thesis
  proof (cases "revealedLen s < length (streamBufferRef s)")
    case True
    with assms show ?thesis by (simp add: tk streamTurn_def)
  next
    case False
    with assms show ?thesis by (simp add: tk)
  qed
qed

lemma streamTurn_ticks_streaming:
  "streamTurn a ses msgs keys buf True None s \<Longrightarrow>
   streamTurn a ses msgs keys buf True None (ticks ts s)"
  by (induction ts arbitrary: s) (simp_all add: streamTurn_tick_streaming)

lemma streamTurn_first_delta:
  assumes "streamBufferRef s = []" "streamBuffer s = []" "revealedLen s = 0"
    "pendingFinalize s = None" "d \<noteq> []"
  shows "streamTurn (selectedAgent s) (selectedSession s) (liveMessages s) (seenKeys s) d True None
           (onmessage now (Some (deltaEvent (selectedAgent s) d)) s)"
proof -
  have "streamBuffer s = streamBufferRef s" using assms by simp
  from onmessage_delta[OF assms(5) this, of now] assms show ?thesis
    by (simp add: streamTurn_def)
qed

lemma streamTurn_delta:
  assumes "streamTurn a ses msgs keys buf True None s" and "d \<noteq> []"
  shows "streamTurn a ses msgs keys (buf @ d) True None (onmessage now (Some (deltaEvent a d)) s)"
proof -
  from assms(1) have a: "a = selectedAgent s" and "streamBuffer s = streamBufferRef s"
    by (simp_all add: streamTurn_def)
  from onmessage_delta[OF assms(2) this(2), of now] assms(1) show ?thesis
    by (simp add: streamTurn_def a)
qed

lemma streamTurn_done:
  assumes "streamTurn a ses msgs keys buf True None s" and "buf \<noteq> []"
  shows "streamTurn a ses msgs keys buf False (Some (trim buf)) (onmessage now (Some (doneEvent a)) s)"
proof -
  from assms have a: "a = selectedAgent s" and "streamBufferRef s \<noteq> []"
    "streamBuffer s = streamBufferRef s"
    by (simp_all add: streamTurn_def)
  from onmessage_done[OF this(2,3), of now] assms(1) show ?thesis
    by (simp add: streamTurn_def a)
qed

lemma streamTurn_tick_reveal:
  assumes "streamTurn a ses msgs keys buf False (Some c) s" and "revealedLen s < length buf"
  shows "streamTurn a ses msgs keys buf False (Some c) (tick now s) \<and>
         revealedLen (tick now s) = min (revealedLen s + 3) (length buf)"
proof -
  from assms have "revealRaf s" "revealedLen s < length (streamBufferRef s)"
    by (simp_all add: streamTurn_def)
  from tick_reveal[OF this, of now] assms show ?thesis
    by (simp add: streamTurn_def)
qed

lemma streamTurn_tick_finalize:
  assumes "streamTurn a ses msgs keys buf False (Some c) s" and "revealedLen s = length buf"
    and "buf \<noteq> []" and "c \<noteq> []"
  shows "liveMessages (tick now s) = msgs @ [\<lparr>role = ''assistant'', content = c, timestamp = now\<rparr>] \<and>
         seenKeys (tick now s) =
           insert (messageBaseKey (Some ''assistant'') (JString c))
             (insert (messageKey (Some ''assistant'') (JString c) (Some now)) keys) \<and>
         streamBufferRef (tick now s) = [] \<and> streamBuffer (tick now s) = [] \<and>
         displayedStream (tick now s) = [] \<and> revealedLen (tick now s) = 0 \<and>
         pendingFinalize (tick now s) = None \<and> \<not> revealRaf (tick now s) \<and>
         \<not> typing (tick now s)"
proof -
  from assms have "revealRaf s" "\<not> isStreaming s" "streamBufferRef s \<noteq> []"
    "revealedLen s = length (streamBufferRef s)" "pendingFinalize s = Some c"
    "streamBuffer s = streamBufferRef s"
    by (simp_all add: streamTurn_def)
  from tick_finalize[OF this, of now] assms show ?thesis
    by (simp add: streamTurn_def runFinalize_def Let_def)
qed

lemma pending_ticks:
  assumes "streamTurn a ses msgs keys buf False (Some c) s" and "buf \<noteq> []" and "c \<noteq> []"
  shows "(liveMessages (ticks ts s) = msgs \<and> streamBufferRef (ticks ts s) = buf \<and>
          revealedLen (ticks ts s) \<le> length buf) \<or>
         (\<exists>pre t post. ts = pre @ t # post \<and>
            revealedLen (ticks pre s) = length buf \<and> streamBufferRef (ticks pre s) = buf \<and>
            liveMessages (ticks pre s) = msgs \<and>
            liveMessages (ticks ts s) =
              msgs @ [\<lparr>role = ''assistant'', content = c, timestamp = t\<rparr>] \<and>
            seenKeys (ticks ts s) =
              insert (messageBaseKey (Some ''assistant'') (JString c))
                (insert (messageKey (Some ''assistant'') (JString c) (Some t)) keys) \<and>
            streamBufferRef (ticks ts s) = [] \<and> streamBuffer (ticks ts s) = [] \<and>
            displayedStream (ticks ts s) = [] \<and> revealedLen (ticks ts s) = 0)"
  using assms(1)
proof (induction ts arbitrary: s)
  case Nil
  then show ?case by (simp add: streamTurn_def)
next
  case (Cons t ts)
  show ?case
  proof (cases "revealedLen s < length buf")
    case True
    from streamTurn_tick_reveal[OF Cons.prems True, of t]
    have s1: "streamTurn a ses msgs keys buf False (Some c) (tick t s)" by simp
    from Cons.IH[OF s1] show ?thesis
    proof
      assume "liveMessages (ticks ts (tick t s)) = msgs \<and>
              streamBufferRef (ticks ts (tick t s)) = buf \<and>
              revealedLen (ticks ts (tick t s)) \<le> length buf"
      then show ?thesis by simp
    next
      assume "\<exists>pre t' post. ts = pre @ t' # post \<and>
            revealedLen (ticks pre (tick t s)) = length buf \<and>
            streamBufferRef (ticks pre (tick t s)) = buf \<and>
            liveMessages (ticks pre (tick t s)) = msgs \<and>
            liveMessages (ticks ts (tick t s)) =
              msgs @ [\<lparr>role = ''assistant'', content = c, timestamp = t'\<rparr>] \<and>
            seenKeys (ticks ts (tick t s)) =
              insert (messageBaseKey (Some ''assistant'') (JString c))
                (insert (messageKey (Some ''assistant'') (JString c) (Some t')) keys) \<and>
            streamBufferRef (ticks ts (tick t s)) = [] \<and> streamBuffer (ticks ts (tick t s)) = [] \<and>
            displayedStream (ticks ts (tick t s)) = [] \<and> revealedLen (ticks ts (tick t s)) = 0"
      then obtain pre t' post where p: "ts = pre @ t' # post"
        and q: "revealedLen (ticks pre (tick t s)) = length buf \<and>
            streamBufferRef (ticks pre (tick t s)) = buf \<and>
            liveMessages (ticks pre (tick t s)) = msgs \<and>
            liveMessages (ticks ts (tick t s)) =
              msgs @ [\<lparr>role = ''assistant'', content = c, timestamp = t'\<rparr>] \<and>
            seenKeys (ticks ts (tick t s)) =
              insert (messageBaseKey (Some ''assistant'') (JString c))
                (insert (messageKey (Some ''assistant'') (JString c) (Some t')) keys) \<and>
            streamBufferRef (ticks ts (tick t s)) = [] \<and> streamBuffer (ticks ts (tick t s)) = [] \<and>
            displayedStream (ticks ts (tick t s)) = [] \<and> revealedLen (ticks ts (tick t s)) = 0"
        by blast
      have "t # ts = (t # pre) @ t' # post" using p by simp
      moreover have "ticks (t # pre) s = ticks pre (tick t s)" "ticks (t # ts) s = ticks ts (tick t s)"
        by simp_all
      ultimately show ?thesis using q by metis
    qed
  next
    case False
    with Cons.prems have r: "revealedLen s = length buf" by (simp add: streamTurn_def)
    note fin = streamTurn_tick_finalize[OF Cons.prems r assms(2,3), of t]
    then have "\<not> revealRaf (tick t s)" by simp
    then have same: "ticks ts (tick t s) = tick t s" by (rule ticks_no_frame)
    have "t # ts = [] @ t # ts" by simp
    moreover have "revealedLen (ticks [] s) = length buf \<and> streamBufferRef (ticks [] s) = buf \<and>
        liveMessages (ticks [] s) = msgs"
      using Cons.prems r by (simp add: streamTurn_def)
    moreover have "ticks (t # ts) s = tick t s" using same by simp
    ultimately show ?thesis using fin by metis
  qed
qed

lemma reveal_steps_left:
  fixes r n k :: nat
  assumes "r < n" and "(n - r + 2) div 3 < Suc k"
  shows "(n - min (r + 3) n + 2) div 3 < k"
proof (cases "r + 3 \<le> n")
  case True
  define m where "m = n - (r + 3) + 2"
  have "n - r + 2 = m + 3" using True by (simp add: m_def)
  then have "(n - r + 2) div 3 = m div 3 + 1" by (simp only: div_add_self2) 
  with assms(2) have "m div 3 < k" by linarith
  moreover have "min (r + 3) n = r + 3" using True by (simp add: min_def)
  ultimately show ?thesis by (simp only: m_def)
next
  case False
  then have m: "min (r + 3) n = n" by (simp add: min_def)
  from assms(1) have "3 \<le> n - r + 2" by linarith
  then have "3 div 3 \<le> (n - r + 2) div (3::nat)" by (rule div_le_mono)
  with assms(2) have "0 < k" by simp
  then show ?thesis by (simp add: m)
qed

lemma pending_enough:
  assumes "streamTurn a ses msgs keys buf False (Some c) s" and "buf \<noteq> []" and "c \<noteq> []"
    and "(length buf - revealedLen s + 2) div 3 < length ts"
  shows "liveMessages (ticks ts s) \<noteq> msgs"
  using assms(1,4)
proof (induction ts arbitrary: s)
  case Nil
  then show ?case by simp
next
  case (Cons t ts)
  show ?case
  proof (cases "revealedLen s < length buf")
    case True
    from streamTurn_tick_reveal[OF Cons.prems(1) True, of t]
    have s1: "streamTurn a ses msgs keys buf False (Some c) (tick t s)"
      and r1: "revealedLen (tick t s) = min (revealedLen s + 3) (length buf)" by simp_all
    have "(length buf - revealedLen (tick t s) + 2) div 3 < length ts"
      unfolding r1 using True Cons.prems(2) by (intro reveal_steps_left) simp_all
    from Cons.IH[OF s1 this] show ?thesis by simp
  next
    case False
    with Cons.prems have r: "revealedLen s = length buf" by (simp add: streamTurn_def)
    note fin = streamTurn_tick_finalize[OF Cons.prems(1) r assms(2,3), of t]
    then have "\<not> revealRaf (tick t s)" by simp
    then have "ticks ts (tick t s) = tick t s" by (rule ticks_no_frame)
    with fin show ?thesis by simp
  qed
qed

text \<open>
  Claim C4 (finalize ordering). A view with no stream in progress receives the deltas
  "Hel" and "lo" and then the done marker, with any number of animation frames between
  the frames of the socket. When the done marker has been handled nothing is finalized
  yet: the transcript is unchanged and the pending content is "Hello". After any frames
  \<open>ts\<close> that follow, either nothing is finalized and the revealed length is at most 5, or
  one frame \<open>t\<close> of \<open>ts\<close> ran the finalizer, in a state whose revealed length was 5, the
  length of the buffer: the transcript then ends with the assistant message "Hello"
  stamped \<open>t\<close>, its two keys are in the seen set, and both buffers are empty. Three
  frames are enough for the finalizer to have run.
\<close>

theorem finalize_ordering:
  assumes "streamBufferRef s0 = []" and "streamBuffer s0 = []" and "revealedLen s0 = 0"
    and "pendingFinalize s0 = None"
  shows
    "let a = selectedAgent s0;
         s1 = ticks ts1 (onmessage t1 (Some (deltaEvent a ''Hel'')) s0);
         s2 = ticks ts2 (onmessage t2 (Some (deltaEvent a ''lo'')) s1);
         s3 = onmessage t3 (Some (doneEvent a)) s2;
         s = ticks ts s3
     in liveMessages s3 = liveMessages s0 \<and> streamBufferRef s3 = ''Hello'' \<and>
        pendingFinalize s3 = Some ''Hello'' \<and>
        ((liveMessages s = liveMessages s0 \<and> streamBufferRef s = ''Hello'' \<and> revealedLen s \<le> 5) \<or>
         (\<exists>pre t post. ts = pre @ t # post \<and>
            revealedLen (ticks pre s3) = 5 \<and> streamBufferRef (ticks pre s3) = ''Hello'' \<and>
            liveMessages (ticks pre s3) = liveMessages s0 \<and>
            liveMessages s =
              liveMessages s0 @ [\<lparr>role = ''assistant'', content = ''Hello'', timestamp = t\<rparr>] \<and>
            seenKeys s =
              insert (messageBaseKey (Some ''assistant'') (JString ''Hello''))
                (insert (messageKey (Some ''assistant'') (JString ''Hello'') (Some t)) (seenKeys s0)) \<and>
            streamBufferRef s = [] \<and> streamBuffer s = [] \<and> displayedStream s = [] \<and>
            revealedLen s = 0)) \<and>
        (3 \<le> length ts \<longrightarrow> liveMessages s \<noteq> liveMessages s0)"
proof -
  define a where "a = selectedAgent s0"
  define s1 where "s1 = ticks ts1 (onmessage t1 (Some (deltaEvent a ''Hel'')) s0)"
  define s2 where "s2 = ticks ts2 (onmessage t2 (Some (deltaEvent a ''lo'')) s1)"
  define s3 where "s3 = onmessage t3 (Some (doneEvent a)) s2"
  let ?turn = "streamTurn a (selectedSession s0) (liveMessages s0) (seenKeys s0)"
  have "?turn ''Hel'' True None (onmessage t1 (Some (deltaEvent a ''Hel'')) s0)"
    unfolding a_def using assms by (intro streamTurn_first_delta) simp_all
  then have t1: "?turn ''Hel'' True None s1"
    unfolding s1_def by (rule streamTurn_ticks_streaming)
  have "?turn (''Hel'' @ ''lo'') True None (onmessage t2 (Some (deltaEvent a ''lo'')) s1)"
    using t1 by (rule streamTurn_delta) simp
  then have "?turn (''Hel'' @ ''lo'') True None s2"
    unfolding s2_def by (rule streamTurn_ticks_streaming)
  then have t2: "?turn ''Hello'' True None s2" by simp
  have "?turn ''Hello'' False (Some (trim ''Hello'')) s3"
    unfolding s3_def using t2 by (rule streamTurn_done) simp
  then have t3: "?turn ''Hello'' False (Some ''Hello'') s3" by (simp only: trim_Hello)
  have ne: "''Hello'' \<noteq> []" by simp
  have len: "length ''Hello'' = 5" by simp
  have p1: "liveMessages s3 = liveMessages s0 \<and> streamBufferRef s3 = ''Hello'' \<and>
        pendingFinalize s3 = Some ''Hello''"
    using t3 by (simp add: streamTurn_def)
  note p2 = pending_ticks[OF t3 ne ne, of ts, unfolded len]
  have p3: "3 \<le> length ts \<longrightarrow> liveMessages (ticks ts s3) \<noteq> liveMessages s0"
  proof
    assume "3 \<le> length ts"
    then have "(length ''Hello'' - revealedLen s3 + 2) div 3 < length ts" by simp
    from pending_enough[OF t3 ne ne this] show "liveMessages (ticks ts s3) \<noteq> liveMessages s0" .
  qed
  from p1 p2 p3 show ?thesis
    unfolding Let_def a_def[symmetric] s1_def[symmetric] s2_def[symmetric] s3_def[symmetric]
    by blast
qed

theorem finalize_ordering_witness:
  "streamBufferRef initialState = [] \<and> streamBuffer initialState = [] \<and>
   revealedLen initialState = 0 \<and> pendingFinalize initialState = None \<and>
   liveMessages
     (ticks [4, 5, 6]
        (onmessage 3 (Some (doneEvent ''default''))
           (onmessage 2 (Some (deltaEvent ''default'' ''lo''))
              (onmessage 1 (Some (deltaEvent ''default'' ''Hel'')) initialState)))) \<noteq> []"
  using finalize_ordering[of initialState "[]" 1 "[]" 2 3 "[4, 5, 6]"]
  by (simp add: initialState_def Let_def)

text \<open>The same run, frame by frame, when no animation frame comes before the done marker.\<close>

lemma hello_trace:
  "let s3 = onmessage 3 (Some (doneEvent ''default''))
              (onmessage 2 (Some (deltaEvent ''default'' ''lo''))
                 (onmessage 1 (Some (deltaEvent ''default'' ''Hel'')) initialState))
   in revealedLen s3 = 0 \<and> liveMessages s3 = [] \<and>
      revealedLen (ticks [4] s3) = 3 \<and> displayedStream (ticks [4] s3) = ''Hel'' \<and>
      liveMessages (ticks [4] s3) = [] \<and>
      revealedLen (ticks [4, 5] s3) = 5 \<and> displayedStream (ticks [4, 5] s3) = ''Hello'' \<and>
      liveMessages (ticks [4, 5] s3) = [] \<and>
      liveMessages (ticks [4, 5, 6] s3) =
        [\<lparr>role = ''assistant'', content = ''Hello'', timestamp = 6\<rparr>] \<and>
      streamBufferRef (ticks [4, 5, 6] s3) = [] \<and> displayedStream (ticks [4, 5, 6] s3) = []"
  by (simp add: Let_def onmessage_def onmessageBody_def deltaEvent_def doneEvent_def emptyEvent_def
      initialState_def handleViewed_def streamDelta_def commitStreamBuffer_def revealEffect_def
      tick_def tickBody_def runFinalize_def CHARS_PER_FRAME_def trim_def is_space_def)

section \<open>The echo of a sent message\<close>

lemma trim_status: "trim ''status?'' = ''status?''"
  by (simp add: trim_def is_space_def)

lemma sendMessage_open:
  assumes "wsOpen s" and "trim (draft s) = c" and "c \<noteq> []"
  shows "sendMessage now s =
           s\<lparr>sent := sent s @ [\<lparr>command = c, target_agent = selectedAgent s\<rparr>],
             seenKeys := insert (messageBaseKey (Some ''user'') (JString c)) (seenKeys s),
             liveMessages := liveMessages s @ [\<lparr>role = ''user'', content = c, timestamp = now\<rparr>],
             typing := True, typingLabel := thinkingLabel, draft := []\<rparr>"
  using assms by (simp add: sendMessage_def Let_def messageKey_def)

lemma echo_suppressed_always:
  assumes "wsOpen s" and "trim (draft s) = c" and "c \<noteq> []"
  shows "onmessage t2 (Some (userEchoEvent (selectedAgent s) c)) (sendMessage t1 s) = sendMessage t1 s"
proof -
  let ?s1 = "sendMessage t1 s"
  have k: "messageBaseKey (Some ''user'') (JString c) \<in> seenKeys ?s1"
    and a: "selectedAgent ?s1 = selectedAgent s"
    by (simp_all add: sendMessage_open[OF assms])
  have "sessionMessage t2 (userEchoEvent (selectedAgent s) c) ?s1 = ?s1"
    using k by (simp add: sessionMessage_def userEchoEvent_def emptyEvent_def Let_def)
  then have "onmessageBody t2 (userEchoEvent (selectedAgent s) c) ?s1 = ?s1"
    using a by (simp add: onmessageBody_def handleViewed_def userEchoEvent_def emptyEvent_def Let_def)
  then show ?thesis by (simp add: onmessage_def commitStreamBuffer_def)
qed

text \<open>
  Claim C5 (optimistic echo suppression window). \<open>sendMessage\<close> appends the local user
  message and registers its key; the echo of the same role and content is then dropped
  by the \<open>session_message\<close> branch whenever it arrives, because the seen keys never
  expire. Here the message "status?" is sent at time 1000 and echoed at time 36000, 35
  seconds later: the echo is not appended.
\<close>

theorem echo_after_35s_suppressed:
  "let s0 = initialState\<lparr>wsOpen := True, draft := ''status?''\<rparr>;
       s1 = sendMessage 1000 s0;
       s2 = onmessage 36000 (Some (userEchoEvent ''default'' ''status?'')) s1
   in liveMessages s1 = [\<lparr>role = ''user'', content = ''status?'', timestamp = 1000\<rparr>] \<and>
      sent s1 = [\<lparr>command = ''status?'', target_agent = ''default''\<rparr>] \<and>
      liveMessages s2 = [\<lparr>role = ''user'', content = ''status?'', timestamp = 1000\<rparr>]"
  by (simp add: Let_def initialState_def sendMessage_def trim_status messageKey_def
      messageBaseKey_def onmessage_def onmessageBody_def userEchoEvent_def emptyEvent_def
      handleViewed_def sessionMessage_def commitStreamBuffer_def)

text \<open>The legacy view keeps the time of the send and drops the echo for 30 seconds only.\<close>

lemma legacy_echo_within_window:
  assumes "trim (inputValue v) = c" and "c \<noteq> []" and "t1 \<noteq> 0" and "t2 - t1 < 30000"
    and "msgKey (Some ''user'') (Some c) ts \<notin> seenMessages v"
  shows "entries (legacySessionMessage t2 (Some ''user'') (Some c) None None ts
                    (legacySendMessage t1 v)) = entries v @ [UserEntry c]"
  using assms
  by (simp add: legacySendMessage_def legacySessionMessage_def Let_def str_or_def)

lemma legacy_echo_after_window:
  assumes "trim (inputValue v) = c" and "c \<noteq> []" and "t1 \<noteq> 0" and "30000 \<le> t2 - t1"
    and "msgKey (Some ''user'') (Some c) ts \<notin> seenMessages v"
  shows "entries (legacySessionMessage t2 (Some ''user'') (Some c) None None ts
                    (legacySendMessage t1 v)) = entries v @ [UserEntry c, UserEntry c]"
  using assms
  by (simp add: legacySendMessage_def legacySessionMessage_def Let_def str_or_def)


section \<open>Sending while the socket is not open\<close>

lemma sendMessage_closed: "\<not> wsOpen s \<Longrightarrow> sendMessage now s = s"
  by (simp add: sendMessage_def Let_def)

text \<open>
  Claim C9 (send while disconnected). \<open>sendMessage\<close> of the chat view returns without a
  change of state when the socket is not open: no frame is written and nothing is queued,
  and no notice is shown either. In a freshly mounted view, whose socket is still
  connecting, the connection flag is set, so the reconnecting badge is not shown.
\<close>

theorem send_while_connecting_silent:
  "sendMessage 1000 (initialState\<lparr>draft := ''hello''\<rparr>) = initialState\<lparr>draft := ''hello''\<rparr> \<and>
   wsConnected (initialState\<lparr>draft := ''hello''\<rparr>) \<and>
   sent (sendMessage 1000 (initialState\<lparr>draft := ''hello''\<rparr>)) = []"
  by (simp add: sendMessage_def initialState_def Let_def)

text \<open>\<open>sendCommand\<close> of the legacy shell shows the toast and sends nothing.\<close>

lemma sendCommand_closed:
  "\<not> app_wsOpen a \<Longrightarrow>
   sendCommand txt agent a = a\<lparr>app_toasts := app_toasts a @ [(''Not connected'', ''error'')]\<rparr>"
  by (simp add: sendCommand_def)


section \<open>Timestamp normalisation\<close>

text \<open>\<open>tsMs\<close> of the legacy view maps a number below \<open>10^12\<close> to the number times 1000
  and a number at or above \<open>10^12\<close> to itself; the timestamp of a fetched receipt and
  \<open>formatRelativeTime\<close> of the chat view keep a number above \<open>10^12\<close> and multiply a
  number at or below it.\<close>

lemma tsMs_number:
  "(n < 10 ^ 12 \<longrightarrow> tsMs (TsNumber n) = n * 1000) \<and>
   (10 ^ 12 \<le> n \<longrightarrow> tsMs (TsNumber n) = n) \<and>
   tsMs TsAbsent = 0"
  by (simp add: tsMs_def)

lemma tsMs_boundary: "tsMs (TsNumber (10 ^ 12)) = 10 ^ 12"
  by (simp add: tsMs_def)

lemma persistedReceiptTimestamp_number:
  "(10 ^ 12 < n \<longrightarrow> persistedReceiptTimestamp now (Some n) = n) \<and>
   (n \<le> 10 ^ 12 \<longrightarrow> persistedReceiptTimestamp now (Some n) = n * 1000) \<and>
   persistedReceiptTimestamp now None = now"
  by (simp add: persistedReceiptTimestamp_def)

lemma formatRelativeTimeMs_number:
  "(10 ^ 12 < n \<longrightarrow> formatRelativeTimeMs n = n) \<and>
   (n \<le> 10 ^ 12 \<longrightarrow> formatRelativeTimeMs n = n * 1000)"
  by (simp add: formatRelativeTimeMs_def)

text \<open>\<open>normalizeMessage\<close> of the chat view keeps a numeric timestamp as it is.\<close>

lemma normalizeMessage_keeps_timestamp:
  "timestamp (normalizeMessage now \<lparr>sm_role = r, sm_content = c, sm_timestamp = Some t\<rparr>) = t"
  by (simp add: normalizeMessage_def)

text \<open>
  Claim C8 (timestamp normalisation): the timestamps of messages are not normalised.
  \<open>normalizeMessage\<close> keeps a fetched timestamp as it is, and the keys of the merger are
  made from it: a message fetched with the epoch seconds 1700000000 keeps this value and
  has the exact key \<open>user|hi|1700000000\<close>, and the same message with 1700000000000 has
  another key. The legacy view makes its key \<open>msgKey\<close> from the raw timestamp as well.
  Other paths of the same code do normalise: the timestamp of a fetched receipt and
  \<open>formatRelativeTime\<close> map both inputs to 1700000000000, and so does \<open>tsMs\<close> of the
  legacy view.
\<close>

theorem message_timestamp_not_normalised:
  "timestamp (normalizeMessage now
      \<lparr>sm_role = Some ''user'', sm_content = JString ''hi'', sm_timestamp = Some 1700000000\<rparr>) =
     1700000000 \<and>
   liveKey (normalizeMessage now
      \<lparr>sm_role = Some ''user'', sm_content = JString ''hi'', sm_timestamp = Some 1700000000\<rparr>) =
     ''user|hi|1700000000'' \<and>
   liveKey (normalizeMessage now
      \<lparr>sm_role = Some ''user'', sm_content = JString ''hi'', sm_timestamp = Some 1700000000000\<rparr>) =
     ''user|hi|1700000000000'' \<and>
   msgKey (Some ''user'') (Some ''hi'') (Some 1700000000) = ''user|hi|1700000000'' \<and>
   msgKey (Some ''user'') (Some ''hi'') (Some 1700000000000) = ''user|hi|1700000000000'' \<and>
   persistedReceiptTimestamp now (Some 1700000000) = 1700000000000 \<and>
   persistedReceiptTimestamp now (Some 1700000000000) = 1700000000000 \<and>
   formatRelativeTimeMs 1700000000 = formatRelativeTimeMs 1700000000000 \<and>
   tsMs (TsNumber 1700000000) = tsMs (TsNumber 1700000000000)"
  by (simp add: normalizeMessage_def liveKey_def messageKey_def messageBaseKey_def
      msgKey_def contentKey_def persistedReceiptTimestamp_def formatRelativeTimeMs_def
      tsMs_def number_to_string_def digit_chars.simps)

section \<open>Escaping before the markdown rules\<close>

lemma replaceAllChar_Nil [simp]: "replaceAllChar c rep [] = []"
  by (simp add: replaceAllChar_def)

lemma replaceAllChar_Cons [simp]:
  "replaceAllChar c rep (x # xs) = (if x = c then rep else [x]) @ replaceAllChar c rep xs"
  by (simp add: replaceAllChar_def)

lemma replaceAllChar_append [simp]:
  "replaceAllChar c rep (xs @ ys) = replaceAllChar c rep xs @ replaceAllChar c rep ys"
  by (simp add: replaceAllChar_def)





subsection \<open>No angle bracket of the source reaches the rendered HTML\<close>


lemma nsa_lit [simp]: "noSourceAngle (lit str)"
  by (auto simp: noSourceAngle_def lit_def)

lemma nsa_append [simp]: "noSourceAngle (a @ b) \<longleftrightarrow> noSourceAngle a \<and> noSourceAngle b"
  by (auto simp: noSourceAngle_def)

























subsection \<open>The flags have no part in what is rendered\<close>

lemma plain_Nil [simp]: "plain [] = []"
  by (simp add: plain_def)

lemma plain_lit [simp]: "plain (lit str) = str"
  by (simp add: plain_def lit_def comp_def)

lemma plain_fromSource [simp]: "plain (fromSource str) = str"
  by (simp add: plain_def fromSource_def comp_def)

lemma plain_append [simp]: "plain (a @ b) = plain a @ plain b"
  by (simp add: plain_def)

lemma plain_empty: "plain s = [] \<longleftrightarrow> s = []"
  by (simp add: plain_def)

lemma plain_slice: "plain (slice i j s) = slice i j (plain s)"
  by (simp add: plain_def slice_def take_map drop_map)

lemma plain_drop: "plain (drop n s) = drop n (plain s)"
  by (simp add: plain_def drop_map)

lemma plain_group_eq:
  "plain (group k m s) =
     (if 0 < k \<and> k \<le> length (m_groups m)
      then slice (fst (m_groups m ! (k - 1))) (snd (m_groups m ! (k - 1))) (plain s)
      else [])"
  by (simp add: group_def plain_slice)

lemma plain_group: "plain s = plain t \<Longrightarrow> plain (group k m s) = plain (group k m t)"
  by (simp only: plain_group_eq)

lemma plain_template: "plain s = plain t \<Longrightarrow> plain (template ps m s) = plain (template ps m t)"
proof (induction ps)
  case Nil
  show ?case by (simp only: template.simps)
next
  case (Cons p ps)
  from Cons have ih: "plain (template ps m s) = plain (template ps m t)" by blast
  show ?case
  proof (cases p)
    case (Inl a)
    then show ?thesis by (simp only: template.simps plain_append ih)
  next
    case (Inr k)
    then show ?thesis
      by (simp only: template.simps plain_append ih plain_group[OF Cons.prems])
  qed
qed

lemma plain_replaceFrom:
  assumes "plain s = plain t" and "\<And>m. plain (f m) = plain (g m)"
  shows "plain (replaceFrom pos ms f s) = plain (replaceFrom pos ms g t)"
proof (induction ms arbitrary: pos)
  case Nil
  show ?case by (simp only: replaceFrom.simps plain_drop assms(1))
next
  case (Cons m ms)
  show ?case
    by (simp only: replaceFrom.simps plain_append plain_slice assms Cons.IH)
qed

lemma plain_replaceRegex:
  assumes "plain s = plain t" and "\<And>m. plain (replacement m s) = plain (replacement m t)"
  shows "plain (replaceRegex regex replacement s) = plain (replaceRegex regex replacement t)"
  unfolding replaceRegex_def assms(1)
  by (rule plain_replaceFrom) (fact assms)+

lemma plain_replaceAllMarked:
  "plain (replaceAllMarked c rep s) = replaceAllChar c rep (plain s)"
  by (induction s) (simp_all add: replaceAllMarked_def replaceAllChar_def plain_def lit_def comp_def)

lemma plain_escapeHtmlMarked: "plain (escapeHtmlMarked s) = escapeHtml (plain s)"
  by (simp add: escapeHtmlMarked_def escapeHtml_def plain_replaceAllMarked)

lemma plain_dropFinalNewline_eq:
  "plain (dropFinalNewline s) =
     (if plain s \<noteq> [] \<and> last (plain s) = CHR 0x0A then butlast (plain s) else plain s)"
proof (cases "s = []")
  case True
  then show ?thesis by (simp add: dropFinalNewline_def)
next
  case False
  then have "last (plain s) = fst (last s)" by (simp add: plain_def last_map)
  moreover have "plain (butlast s) = butlast (plain s)" by (simp add: plain_def map_butlast)
  ultimately show ?thesis using False by (simp add: dropFinalNewline_def plain_empty)
qed

lemma plain_stripBullet_eq:
  "plain (stripBullet s) = (if take 2 (plain s) = ''- '' then drop 2 (plain s) else plain s)"
  by (simp add: stripBullet_def plain_drop)

lemma plain_dropWhile: "plain (dropWhile (\<lambda>x. P (fst x)) s) = dropWhile P (plain s)"
  by (simp add: plain_def dropWhile_map comp_def)

lemma plain_stripNumber_eq:
  "plain (stripNumber s) =
     (let n = length (takeWhile is_digit (plain s)) in
      if 0 < n \<and> n < length (plain s) \<and> plain s ! n = CHR ''.''
      then dropWhile is_space (drop (n + 1) (plain s))
      else plain s)"
proof -
  have "fst (s ! n) = plain s ! n" if "n < length s" for n
    using that by (simp add: plain_def)
  moreover have "length (plain s) = length s" by (simp add: plain_def)
  ultimately show ?thesis
    by (auto simp: stripNumber_def Let_def plain_dropWhile plain_drop)
qed


lemma plain_dropFinalNewline:
  "plain s = plain t \<Longrightarrow> plain (dropFinalNewline s) = plain (dropFinalNewline t)"
  by (simp only: plain_dropFinalNewline_eq)

lemma plain_stripBullet:
  "plain s = plain t \<Longrightarrow> plain (stripBullet s) = plain (stripBullet t)"
  by (simp only: plain_stripBullet_eq)

lemma plain_stripNumber:
  "plain s = plain t \<Longrightarrow> plain (stripNumber s) = plain (stripNumber t)"
  by (simp only: plain_stripNumber_eq)

lemma splitOn_not_Nil: "splitOn c s \<noteq> []"
  by (induction s) (auto split: list.splits)

lemma plain_Cons: "plain (x # xs) = fst x # plain xs"
  by (simp add: plain_def)

lemma lit_Cons: "lit (a # str) = (a, False) # lit str"
  by (simp add: lit_def)

lemma plain_splitOn_lit: "map plain (splitOn c s) = map plain (splitOn c (lit (plain s)))"
proof (induction s)
  case Nil
  then show ?case by (simp add: lit_def)
next
  case (Cons x xs)
  show ?case
  proof (cases "fst x = c")
    case True
    with Cons show ?thesis by (simp add: plain_Cons lit_Cons)
  next
    case False
    obtain k ks where k: "splitOn c xs = k # ks"
      using splitOn_not_Nil[of c xs] by (cases "splitOn c xs") auto
    obtain k' ks' where k': "splitOn c (lit (plain xs)) = k' # ks'"
      using splitOn_not_Nil[of c "lit (plain xs)"] by (cases "splitOn c (lit (plain xs))") auto
    from Cons.IH k k' have "plain k = plain k'" and "map plain ks = map plain ks'" by simp_all
    with False k k' show ?thesis by (simp add: plain_Cons lit_Cons)
  qed
qed

lemma plain_splitOn:
  assumes "plain s = plain t"
  shows "map plain (splitOn c s) = map plain (splitOn c t)"
proof -
  have "map plain (splitOn c s) = map plain (splitOn c (lit (plain s)))"
    by (rule plain_splitOn_lit)
  also have "\<dots> = map plain (splitOn c (lit (plain t)))" by (simp only: assms)
  also have "\<dots> = map plain (splitOn c t)" by (rule plain_splitOn_lit[symmetric])
  finally show ?thesis .
qed

lemma plain_concat_map:
  assumes "\<And>a b. plain a = plain b \<Longrightarrow> plain (F a) = plain (F b)"
  shows "map plain ls = map plain ks \<Longrightarrow> plain (concat (map F ls)) = plain (concat (map F ks))"
proof (induction ls arbitrary: ks)
  case Nil
  then have "ks = []" by simp
  then show ?case by simp
next
  case (Cons l ls)
  then obtain k ks' where ks: "ks = k # ks'" by (cases ks) auto
  with Cons.prems have lk: "plain l = plain k" and r: "map plain ls = map plain ks'" by simp_all
  have "plain (F l) = plain (F k)" using lk by (rule assms)
  moreover have "plain (concat (map F ls)) = plain (concat (map F ks'))" using r by (rule Cons.IH)
  ultimately show ?case unfolding ks by (simp only: list.map concat.simps plain_append)
qed


lemma plain_fenceBlock:
  assumes "plain s = plain t"
  shows "plain (fenceBlock m s) = plain (fenceBlock m t)"
proof -
  have g1: "plain (group 1 m s) = plain (group 1 m t)" using assms by (rule plain_group)
  have g2: "plain (group 2 m s) = plain (group 2 m t)" using assms by (rule plain_group)
  have e: "group 1 m s = [] \<longleftrightarrow> group 1 m t = []"
    using g1 by (metis plain_empty)
  have d: "plain (dropFinalNewline (group 2 m s)) = plain (dropFinalNewline (group 2 m t))"
    using g2 by (rule plain_dropFinalNewline)
  show ?thesis
    unfolding fenceBlock_def Let_def
    by (simp only: plain_append plain_lit d g1 e if_distrib[of plain] plain_Nil)
qed

lemma plain_listBlock:
  assumes "plain s = plain t"
    and "\<And>a b. plain a = plain b \<Longrightarrow> plain (strip a) = plain (strip b)"
  shows "plain (listBlock opening closing strip m s) = plain (listBlock opening closing strip m t)"
proof -
  have g1: "plain (group 1 m s) = plain (group 1 m t)" using assms(1) by (rule plain_group)
  have g2: "plain (group 2 m s) = plain (group 2 m t)" using assms(1) by (rule plain_group)
  have "map plain (splitOn CHR 0x0A (group 2 m s)) = map plain (splitOn CHR 0x0A (group 2 m t))"
    using g2 by (rule plain_splitOn)
  moreover have "plain (lit ''<li>'' @ strip a @ lit ''</li>'') =
                 plain (lit ''<li>'' @ strip b @ lit ''</li>'')" if "plain a = plain b" for a b
    using assms(2)[OF that] by (simp only: plain_append)
  ultimately have i: "plain (concat (map (\<lambda>line. lit ''<li>'' @ strip line @ lit ''</li>'')
                       (splitOn CHR 0x0A (group 2 m s)))) =
             plain (concat (map (\<lambda>line. lit ''<li>'' @ strip line @ lit ''</li>'')
                       (splitOn CHR 0x0A (group 2 m t))))"
    by (rule plain_concat_map[rotated])
  show ?thesis
    unfolding listBlock_def Let_def
    by (simp only: plain_append g1 i)
qed

lemma plain_splitFrom:
  assumes "plain s = plain t"
  shows "map plain (splitFrom pos ms s) = map plain (splitFrom pos ms t)"
proof (induction ms arbitrary: pos)
  case Nil
  show ?case by (simp only: splitFrom.simps list.map plain_drop assms)
next
  case (Cons m ms)
  have "map plain (map (\<lambda>g. slice (fst g) (snd g) s) (m_groups m)) =
        map plain (map (\<lambda>g. slice (fst g) (snd g) t) (m_groups m))"
    by (simp only: map_map comp_def plain_slice assms)
  then show ?case
    by (simp only: splitFrom.simps list.map map_append plain_slice assms Cons.IH)
qed

lemma plain_lineBreaks:
  assumes "plain s = plain t"
  shows "plain (concat (map (\<lambda>part. if take 5 (plain part) = ''<pre>'' then part
                                  else replaceAllMarked CHR 0x0A ''<br>'' part)
            (splitRegex regex s))) =
         plain (concat (map (\<lambda>part. if take 5 (plain part) = ''<pre>'' then part
                                  else replaceAllMarked CHR 0x0A ''<br>'' part)
            (splitRegex regex t)))"
proof (rule plain_concat_map)
  show "map plain (splitRegex regex s) = map plain (splitRegex regex t)"
    unfolding splitRegex_def assms by (rule plain_splitFrom[OF assms])
next
  fix a b :: marked
  assume ab: "plain a = plain b"
  show "plain (if take 5 (plain a) = ''<pre>'' then a else replaceAllMarked CHR 0x0A ''<br>'' a) =
        plain (if take 5 (plain b) = ''<pre>'' then b else replaceAllMarked CHR 0x0A ''<br>'' b)"
    by (simp only: if_distrib[of plain] plain_replaceAllMarked ab)
qed

lemma plain_replace_template:
  assumes "plain s = plain t"
  shows "plain (replaceRegex regex (template ps) s) = plain (replaceRegex regex (template ps) t)"
  using assms by (rule plain_replaceRegex) (rule plain_template[OF assms])

lemma plain_replace_fenceBlock:
  assumes "plain s = plain t"
  shows "plain (replaceRegex regex fenceBlock s) = plain (replaceRegex regex fenceBlock t)"
  using assms by (rule plain_replaceRegex) (rule plain_fenceBlock[OF assms])

lemma plain_replace_ul:
  assumes "plain s = plain t"
  shows "plain (replaceRegex regex (listBlock opening closing stripBullet) s) =
         plain (replaceRegex regex (listBlock opening closing stripBullet) t)"
  using assms by (rule plain_replaceRegex) (rule plain_listBlock[OF assms plain_stripBullet])

lemma plain_replace_ol:
  assumes "plain s = plain t"
  shows "plain (replaceRegex regex (listBlock opening closing stripNumber) s) =
         plain (replaceRegex regex (listBlock opening closing stripNumber) t)"
  using assms by (rule plain_replaceRegex) (rule plain_listBlock[OF assms plain_stripNumber])

lemma plain_escape_cong:
  "plain s = plain t \<Longrightarrow> plain (escapeHtmlMarked s) = plain (escapeHtmlMarked t)"
  by (simp only: plain_escapeHtmlMarked)

lemmas plain_rules =
  plain_lineBreaks plain_replace_template plain_replace_fenceBlock plain_replace_ul
  plain_replace_ol plain_escape_cong

lemma renderMarkdownHtml_marks:
  assumes "plain s = plain t"
  shows "plain (renderMarkdownHtml re s) = plain (renderMarkdownHtml re t)"
proof (cases "s = []")
  case True
  with assms have "t = []" by (metis plain_empty plain_Nil)
  with True show ?thesis by (simp only: renderMarkdownHtml_def if_True)
next
  case False
  with assms have "t \<noteq> []" by (metis plain_empty plain_Nil)
  with False show ?thesis
    unfolding renderMarkdownHtml_def Let_def
    by (simp only: if_False) (intro plain_rules assms)
qed

lemma renderMarkdown_marks:
  assumes "plain s = plain t"
  shows "plain (renderMarkdown re s) = plain (renderMarkdown re t)"
proof (cases "s = []")
  case True
  with assms have "t = []" by (metis plain_empty plain_Nil)
  with True show ?thesis by (simp only: renderMarkdown_def if_True)
next
  case False
  with assms have "t \<noteq> []" by (metis plain_empty plain_Nil)
  with False show ?thesis
    unfolding renderMarkdown_def Let_def escapeHtmlMarked_def[symmetric]
    by (simp only: if_False) (intro plain_rules assms)
qed









section \<open>The session router\<close>

text \<open>The two handlers on an event of another session, in general. In the chat view
  such an event changes nothing but the banner, which is set to the event's session with
  the detail of the event's kind, and the banner's timeout. In the legacy view it is
  routed to the other-session branch, which records the event's session as the server's,
  shows the banner for \<open>typing_start\<close>, \<open>tool_start\<close> and \<open>stream_delta\<close> only, sets the
  timeout that hides it after \<open>typing_stop\<close> and \<open>turn_receipt\<close>, and starts the refresh of
  the session list on \<open>turn_receipt\<close>.\<close>

lemma chat_view_other_session:
  assumes ty: "ev_type payload = Some ty" "ty \<noteq> []"
    and nl: "\<not> (ty = ''agent_list'' \<and> ev_agents payload \<noteq> None)"
    and ag: "(case nullish_or (ev_agent payload) (ev_agent_id payload) of
               Some a \<Rightarrow> a | None \<Rightarrow> []) = selectedAgent s"
    and se: "nullish_or (ev_session payload) (ev_session_id payload) = Some sid"
    and ne: "sid \<noteq> []" "selectedSession s \<noteq> []" "sid \<noteq> selectedSession s"
  shows "onmessage now (Some payload) s =
           s\<lparr>otherSession :=
               Some (sid,
                 if ty = ''tool_start'' then
                   ''running '' @ (case ev_tool payload of Some n \<Rightarrow> n | None \<Rightarrow> ''tool'')
                 else if ty = ''stream_delta'' then ''responding...''
                 else if ty = ''typing_start'' then ''thinking...''
                 else if ty = ''turn_receipt'' then ''completed turn''
                 else ''working...''),
             otherSessionTimer :=
               (if ty = ''turn_receipt'' \<or> ty = ''typing_stop'' \<or>
                   (ty = ''stream_delta'' \<and> ev_done payload = Some True)
                then Some (now + 6000) else None)\<rparr>"
proof -
  have "onmessageBody now payload s = otherSessionBranch now ty sid payload s"
    using assms by (auto simp: onmessageBody_def Let_def)
  then show ?thesis
    by (simp add: onmessage_def otherSessionBranch_def commitStreamBuffer_def
        otherSessionDetail_def terminalEvent_def toolName_def)
qed

lemma legacy_route_other_session:
  assumes "ev_type payload = Some ty" "ty \<noteq> ''agent_list''" "ty \<noteq> ''list_agents''"
    and "(case str_or (ev_agent payload) (str_or (ev_agent_id payload) None) of
            Some a \<Rightarrow> a | None \<Rightarrow> []) = chatAgent v"
    and "str_or (ev_session payload) (str_or (ev_session_id payload) None) = Some sid"
    and "currentSessionId v = Some cur" "cur \<noteq> []" "sid \<noteq> cur"
  shows "legacyRoute payload v = RouteOtherSession sid"
  using assms by (simp add: legacyRoute_def Let_def)

lemma legacy_other_session_state:
  "legacyOtherSession now ty tool finished sid v =
     (if ty = ''typing_start'' \<or> ty = ''tool_start'' \<or> ty = ''stream_delta'' then
        v\<lparr>activeServerSession := Some sid,
          bannerLabel :=
            ''Agent is working in: '' @
            (if sid = [] then ''another session''
             else if length sid > 30 then take 28 sid @ ellipsis else sid) @
            '' '' @ emdash @ '' '' @
            (if ty = ''tool_start'' then
               ''running '' @ (case tool of Some n \<Rightarrow> if n = [] then ''tool'' else n | None \<Rightarrow> ''tool'')
             else if ty = ''stream_delta'' then ''responding'' @ ellipsis
             else ''thinking'' @ ellipsis),
          bannerVisible := True,
          bannerTimer := Some (now + 30000)\<rparr>
      else if ty = ''typing_stop'' then
        v\<lparr>activeServerSession := Some sid, bannerTimer := Some (now + 5000)\<rparr>
      else if ty = ''turn_receipt'' then
        v\<lparr>activeServerSession := Some sid, sessionListFetches := sessionListFetches v + 1,
          bannerTimer := Some (now + 5000)\<rparr>
      else v\<lparr>activeServerSession := Some sid\<rparr>)"
  by (simp add: legacyOtherSession_def showOtherSessionBanner_def Let_def ellipsis_def)


text \<open>
  Claim C2 (session isolation): the legacy view breaks it. While it shows session A, a
  \<open>turn_receipt\<close> of session B goes to the other-session branch, which starts a refresh
  of the session list; when the refresh is done, \<open>populateSessions\<close> assigns the server's
  session B to \<open>currentSessionId\<close> and loads nothing, so that the view still shows the
  list of session A, and the next \<open>session_message\<close> of session B is handled as one of
  the viewed session and appended to that list. Nor does the branch set the banner for
  every event: for a \<open>session_message\<close> of session B it records the server's session and
  leaves the banner hidden. The chat view of chat.tsx, on the same events, sets the banner
  and changes nothing else.
\<close>

theorem legacy_other_session_breaks_isolation:
  "legacyRoute (eventOfB ''turn_receipt'') legacyShowingA = RouteOtherSession ''B'' \<and>
   legacyOtherSession 5 ''turn_receipt'' None False ''B'' legacyShowingA =
     legacyShowingA\<lparr>activeServerSession := Some ''B'', sessionListFetches := 1,
       bannerTimer := Some 5005\<rparr> \<and>
   legacyAfterReceipt =
     legacyShowingA\<lparr>activeServerSession := Some ''B'', sessionListFetches := 1,
       bannerTimer := Some 5005, currentSessionId := Some ''B''\<rparr> \<and>
   entries legacyAfterReceipt = [UserEntry ''question''] \<and>
   legacyRoute (eventOfB ''session_message'') legacyAfterReceipt = RouteViewed (Some ''B'') \<and>
   entries (legacySessionMessage 9 (Some ''assistant'') (Some ''hi'') None None None
              legacyAfterReceipt) =
     [UserEntry ''question'', AssistantEntry ''assistant'' ''hi''] \<and>
   legacyRoute (eventOfB ''session_message'') legacyShowingA = RouteOtherSession ''B'' \<and>
   legacyOtherSession 5 ''session_message'' None False ''B'' legacyShowingA =
     legacyShowingA\<lparr>activeServerSession := Some ''B''\<rparr> \<and>
   \<not> bannerVisible (legacyOtherSession 5 ''session_message'' None False ''B'' legacyShowingA) \<and>
   onmessage 5 (Some (eventOfB ''turn_receipt'')) (initialState\<lparr>selectedSession := ''A''\<rparr>) =
     initialState\<lparr>selectedSession := ''A'', otherSession := Some (''B'', ''completed turn''),
       otherSessionTimer := Some 6005\<rparr> \<and>
   onmessage 5 (Some (eventOfB ''session_message'')) (initialState\<lparr>selectedSession := ''A''\<rparr>) =
     initialState\<lparr>selectedSession := ''A'', otherSession := Some (''B'', ''working...'')\<rparr>"
  by (simp add: legacyAfterReceipt_def legacyShowingA_def eventOfB_def loadSessionListDone_def
      legacyOtherSession_def legacyViewing_def legacyRoute_def emptyEvent_def str_or_def
      legacySessionMessage_def msgKey_def contentKey_def Let_def
      onmessage_def onmessageBody_def otherSessionBranch_def otherSessionDetail_def
      terminalEvent_def commitStreamBuffer_def initialState_def)

text \<open>The completion of the refresh assigns the server's session to \<open>currentSessionId\<close>
  whatever the view shows.\<close>

lemma loadSessionListDone_current:
  "c \<noteq> [] \<Longrightarrow>
   loadSessionListDone listed (Some c) v =
     v\<lparr>activeServerSession := Some c, currentSessionId := Some c\<rparr>"
  by (simp add: loadSessionListDone_def Let_def)

section \<open>The reset on a change of agent or session\<close>

lemma commitStreamBuffer_same: "streamBuffer s = b \<Longrightarrow> commitStreamBuffer b s = s"
  by (simp add: commitStreamBuffer_def)

lemma commitStreamBuffer_cases:
  "commitStreamBuffer b s = s \<or> commitStreamBuffer b s = s\<lparr>revealRaf := True\<rparr> \<or>
   commitStreamBuffer b s = s\<lparr>revealRaf := False\<rparr>"
  by (simp add: commitStreamBuffer_def revealEffect_def Let_def)

lemma perSession_commit [simp]:
  "perSessionState (commitStreamBuffer b s) = perSessionState s"
  by (simp add: commitStreamBuffer_def revealEffect_def Let_def perSessionState_def)

lemma perSession_reset_body:
  "perSessionState (sessionResetBody s) = perSessionState initialState"
  by (simp add: sessionResetBody_def perSessionState_def initialState_def)

lemma perSession_reset: "perSessionState (sessionReset s) = perSessionState initialState"
  by (simp add: sessionReset_def perSession_reset_body)

lemma tick_idle:
  assumes "perSessionState s = perSessionState initialState"
  shows "perSessionState (tick now s) = perSessionState initialState"
proof -
  from assms have f: "streamBufferRef s = []" "revealedLen s = 0" "isStreaming s = False"
    by (simp_all add: perSessionState_def initialState_def)
  then have "tickBody now s = s\<lparr>revealRaf := False\<rparr>"
    by (simp add: tickBody_def)
  then have "perSessionState (tickBody now s) = perSessionState s"
    by (simp add: perSessionState_def)
  with assms show ?thesis by (simp add: tick_def)
qed

lemma ticks_idle:
  "perSessionState s = perSessionState initialState \<Longrightarrow>
   perSessionState (ticks ts s) = perSessionState initialState"
  by (induction ts arbitrary: s) (simp_all add: tick_idle)

text \<open>The chat view (chat.tsx): when the selected agent or the viewed session changes, the
  live messages, the receipts, the activity items, the seen keys, the stream buffer (ref
  and hook), the revealed length and text, the streaming flag, the pending finalizer,
  the typing indicator with its label and the other-session banner have the values of a
  freshly mounted view, and animation frames that follow leave them so.\<close>

lemma chat_view_switch_reset:
  "(a \<noteq> selectedAgent s \<longrightarrow>
      perSessionState (ticks ts (setSelectedAgent a s)) = perSessionState initialState) \<and>
   (sid \<noteq> selectedSession s \<longrightarrow>
      perSessionState (ticks ts (setSelectedSession sid s)) = perSessionState initialState)"
  by (simp add: setSelectedAgent_def setSelectedSession_def perSession_reset ticks_idle)

lemma chat_view_switch_reset_example:
  "perSessionState
     (ticks [2, 3]
        (setSelectedSession ''Y''
           (onmessage 1 (Some (deltaEvent ''default'' ''Hel''))
              (initialState\<lparr>selectedSession := ''X''\<rparr>)))) =
   perSessionState initialState"
proof -
  have "selectedSession
          (onmessage 1 (Some (deltaEvent ''default'' ''Hel''))
             (initialState\<lparr>selectedSession := ''X''\<rparr>)) = ''X''"
    by (simp add: onmessage_def onmessageBody_def deltaEvent_def emptyEvent_def
        initialState_def handleViewed_def streamDelta_def commitStreamBuffer_def
        revealEffect_def Let_def)
  then show ?thesis
    using chat_view_switch_reset[where sid = "''Y''" and ts = "[2, 3]" and
        s = "onmessage 1 (Some (deltaEvent ''default'' ''Hel''))
               (initialState\<lparr>selectedSession := ''X''\<rparr>)"]
    by simp
qed

text \<open>
  Claim C6 (session-switch reset). The legacy view's \<open>loadSession\<close> empties the message
  list and both dedup tables and hides the banner, and leaves the streaming text, the
  streaming element and the typing indicator as they are. A view of session X that has
  received the delta "Hel" and then loads session Y still holds "Hel"; the next delta
  "lo", of session Y, is appended to it, and the stream is written to the element that
  was removed from the message list, so the list shows no reply. A typing indicator that
  was visible stays visible.
\<close>

theorem legacy_loadSession_keeps_stream:
  "let v1 = legacyStreamDelta 1 (Some ''Hel'') False (legacyViewing ''X'');
       v2 = loadSession ''Y'' v1;
       v3 = legacyStreamDelta 2 (Some ''lo'') False v2
   in entries v1 = [StreamEntry] \<and> streamingText v1 = ''Hel'' \<and>
      currentSessionId v2 = Some ''Y'' \<and> streamingDiv v2 \<and> streamingText v2 = ''Hel'' \<and>
      entries v2 = [SystemEntry (''Loading session: Y'' @ ellipsis)] \<and>
      streamingText v3 = ''Hello'' \<and> entries v3 = entries v2 \<and>
      typingVisible (loadSession ''Y'' ((legacyViewing ''X'')\<lparr>typingVisible := True\<rparr>))"
  by (simp add: Let_def legacyStreamDelta_def appendStreamDelta_def getOrCreateStreamingMsg_def
      loadSession_def hideOtherSessionBanner_def legacyViewing_def)

section \<open>The reveal loop\<close>

lemma commit_fields [simp]:
  "revealedLen (commitStreamBuffer b s) = revealedLen s"
  "streamBufferRef (commitStreamBuffer b s) = streamBufferRef s"
  "streamBuffer (commitStreamBuffer b s) = streamBuffer s"
  "liveMessages (commitStreamBuffer b s) = liveMessages s"
  "isStreaming (commitStreamBuffer b s) = isStreaming s"
  "pendingFinalize (commitStreamBuffer b s) = pendingFinalize s"
  "seenKeys (commitStreamBuffer b s) = seenKeys s"
  "displayedStream (commitStreamBuffer b s) = displayedStream s"
  by (simp_all add: commitStreamBuffer_def revealEffect_def Let_def)

lemma runFinalize_fields [simp]:
  "revealedLen (runFinalize now c s) = 0"
  "streamBufferRef (runFinalize now c s) = []"
  "streamBuffer (runFinalize now c s) = []"
  "displayedStream (runFinalize now c s) = []"
  "isStreaming (runFinalize now c s) = isStreaming s"
  by (simp_all add: runFinalize_def Let_def)

lemma tick_inv:
  "revealedLen s \<le> length (streamBufferRef s) \<Longrightarrow>
   revealedLen (tick now s) \<le> length (streamBufferRef (tick now s))"
  by (auto simp: tick_def tickBody_def Let_def CHARS_PER_FRAME_def split: option.splits)

lemma tick_mono:
  "(streamBufferRef (tick now s) = streamBufferRef s \<and> revealedLen s \<le> revealedLen (tick now s)) \<or>
   (isStreaming s = False \<and> length (streamBufferRef s) \<le> revealedLen s \<and>
    streamBufferRef (tick now s) = [] \<and> revealedLen (tick now s) = 0)"
  by (auto simp: tick_def tickBody_def Let_def CHARS_PER_FRAME_def split: option.splits)

lemma streamDelta_inv:
  "revealedLen s \<le> length (streamBufferRef s) \<Longrightarrow>
   revealedLen (streamDelta now p s) \<le> length (streamBufferRef (streamDelta now p s))"
  by (auto simp: streamDelta_def Let_def split: option.splits)

lemma streamDelta_revealed:
  "revealedLen s \<le> length (streamBufferRef s) \<Longrightarrow>
   revealedLen (streamDelta now p s) = revealedLen s \<and>
   length (streamBufferRef s) \<le> length (streamBufferRef (streamDelta now p s))"
  by (auto simp: streamDelta_def Let_def split: option.splits)

lemma appendActivity_fields [simp]:
  "revealedLen (appendActivity now t k s) = revealedLen s"
  "streamBufferRef (appendActivity now t k s) = streamBufferRef s"
  by (simp_all add: appendActivity_def)

lemma sessionMessage_fields [simp]:
  "revealedLen (sessionMessage now p s) = revealedLen s"
  "streamBufferRef (sessionMessage now p s) = streamBufferRef s"
  by (simp_all add: sessionMessage_def Let_def)

lemma handleViewed_revealed:
  "revealedLen s \<le> length (streamBufferRef s) \<Longrightarrow>
   revealedLen (handleViewed now ty p s) = revealedLen s \<and>
   length (streamBufferRef s) \<le> length (streamBufferRef (handleViewed now ty p s))"
  by (simp add: handleViewed_def streamDelta_revealed)

lemma onmessage_revealed:
  "revealedLen s \<le> length (streamBufferRef s) \<Longrightarrow>
   revealedLen (onmessage now f s) = revealedLen s \<and>
   length (streamBufferRef s) \<le> length (streamBufferRef (onmessage now f s))"
  by (auto simp: onmessage_def onmessageBody_def otherSessionBranch_def handleViewed_revealed Let_def
      split: option.splits)

lemma sessionReset_fields [simp]:
  "revealedLen (sessionReset s) = 0" "streamBufferRef (sessionReset s) = []"
  by (simp_all add: sessionReset_def sessionResetBody_def)

lemma step_inv:
  "revealedLen s \<le> length (streamBufferRef s) \<Longrightarrow>
   revealedLen (step a s) \<le> length (streamBufferRef (step a s))"
proof (cases a)
  case (Frame now f)
  assume "revealedLen s \<le> length (streamBufferRef s)"
  from onmessage_revealed[OF this, of now f] this Frame show ?thesis by simp
next
  case (AnimationFrame now)
  assume "revealedLen s \<le> length (streamBufferRef s)"
  with AnimationFrame show ?thesis by (simp add: tick_inv)
qed (auto simp: sendMessage_def startNewSession_def setSelectedAgent_def setSelectedSession_def
       jumpToOtherSession_def bannerTimeout_def onopen_def onclose_def Let_def split: option.splits)

lemma run_inv:
  "revealedLen s \<le> length (streamBufferRef s) \<Longrightarrow>
   revealedLen (run as s) \<le> length (streamBufferRef (run as s))"
  by (induction as arbitrary: s) (simp_all add: step_inv)

lemma reachable_inv: "revealedLen (run as initialState) \<le> length (streamBufferRef (run as initialState))"
  by (rule run_inv) (simp add: initialState_def)

lemma tick_prefix:
  assumes "revealedLen s \<le> length (streamBufferRef s)"
    and "displayedStream s = take (revealedLen s) (streamBufferRef s)"
  shows "displayedStream (tick now s) = take (revealedLen (tick now s)) (streamBufferRef (tick now s))"
  using assms
  by (auto simp: tick_def tickBody_def runFinalize_def Let_def CHARS_PER_FRAME_def
      split: option.splits)

lemma streamDelta_prefix:
  assumes "revealedLen s \<le> length (streamBufferRef s)"
    and "displayedStream s = take (revealedLen s) (streamBufferRef s)"
  shows "displayedStream (streamDelta now p s) =
         take (revealedLen (streamDelta now p s)) (streamBufferRef (streamDelta now p s))"
  using assms
  by (auto simp: streamDelta_def runFinalize_def Let_def split: option.splits)

lemma handleViewed_prefix:
  assumes "revealedLen s \<le> length (streamBufferRef s)"
    and "displayedStream s = take (revealedLen s) (streamBufferRef s)"
  shows "displayedStream (handleViewed now ty p s) =
         take (revealedLen (handleViewed now ty p s)) (streamBufferRef (handleViewed now ty p s))"
  using assms
  by (simp add: handleViewed_def streamDelta_prefix appendActivity_def sessionMessage_def Let_def)

lemma onmessage_prefix:
  assumes "revealedLen s \<le> length (streamBufferRef s)"
    and "displayedStream s = take (revealedLen s) (streamBufferRef s)"
  shows "displayedStream (onmessage now f s) =
         take (revealedLen (onmessage now f s)) (streamBufferRef (onmessage now f s))"
  using assms
  by (auto simp: onmessage_def onmessageBody_def otherSessionBranch_def handleViewed_prefix Let_def
      split: option.splits)

lemma step_prefix:
  assumes "revealedLen s \<le> length (streamBufferRef s)"
    and "displayedStream s = take (revealedLen s) (streamBufferRef s)"
  shows "displayedStream (step a s) = take (revealedLen (step a s)) (streamBufferRef (step a s))"
proof (cases a)
  case (Frame now f)
  with onmessage_prefix[OF assms, of now f] show ?thesis by simp
next
  case (AnimationFrame now)
  with tick_prefix[OF assms, of now] show ?thesis by simp
qed (use assms in \<open>auto simp: sendMessage_def startNewSession_def setSelectedAgent_def
       setSelectedSession_def sessionReset_def sessionResetBody_def
       jumpToOtherSession_def bannerTimeout_def onopen_def onclose_def Let_def split: option.splits\<close>)

lemma run_prefix:
  assumes "revealedLen s \<le> length (streamBufferRef s)"
    and "displayedStream s = take (revealedLen s) (streamBufferRef s)"
  shows "displayedStream (run as s) = take (revealedLen (run as s)) (streamBufferRef (run as s))"
  using assms
proof (induction as arbitrary: s)
  case Nil
  then show ?case by simp
next
  case (Cons a as)
  from step_inv[OF Cons.prems(1), of a] step_prefix[OF Cons.prems, of a]
  show ?case by (simp add: Cons.IH)
qed

lemma reachable_prefix:
  "displayedStream (run as initialState) =
   take (revealedLen (run as initialState)) (streamBufferRef (run as initialState))"
  by (rule run_prefix) (simp_all add: initialState_def)

text \<open>
  Claim C7 (reveal monotonicity). In every state that a mounted view reaches, the
  revealed length is at most the length of the buffered text, also after an animation
  frame, and the displayed text is the prefix of that length of the buffered text. An
  animation frame either keeps the buffer and does not decrease the revealed length, or
  it runs the finalizer: the stream has ended, the whole buffer was revealed, and buffer
  and revealed length are reset together. A frame of the socket keeps the revealed
  length and does not shorten the buffer.
\<close>

theorem reveal_monotone:
  "let s = run as initialState in
     revealedLen s \<le> length (streamBufferRef s) \<and>
     displayedStream s = take (revealedLen s) (streamBufferRef s) \<and>
     revealedLen (tick now s) \<le> length (streamBufferRef (tick now s)) \<and>
     ((streamBufferRef (tick now s) = streamBufferRef s \<and>
       revealedLen s \<le> revealedLen (tick now s)) \<or>
      (isStreaming s = False \<and> revealedLen s = length (streamBufferRef s) \<and>
       streamBufferRef (tick now s) = [] \<and> revealedLen (tick now s) = 0)) \<and>
     revealedLen (onmessage now frame s) = revealedLen s \<and>
     length (streamBufferRef s) \<le> length (streamBufferRef (onmessage now frame s))"
proof -
  have inv: "revealedLen (run as initialState) \<le> length (streamBufferRef (run as initialState))"
    by (rule reachable_inv)
  from tick_mono[of now "run as initialState"] inv
  have "(streamBufferRef (tick now (run as initialState)) = streamBufferRef (run as initialState) \<and>
       revealedLen (run as initialState) \<le> revealedLen (tick now (run as initialState))) \<or>
      (isStreaming (run as initialState) = False \<and>
       revealedLen (run as initialState) = length (streamBufferRef (run as initialState)) \<and>
       streamBufferRef (tick now (run as initialState)) = [] \<and>
       revealedLen (tick now (run as initialState)) = 0)"
    by linarith
  with inv reachable_prefix[of as] tick_inv[OF inv, of now]
    onmessage_revealed[OF inv, of now frame]
  show ?thesis unfolding Let_def by blast
qed

end
